theory Spec2Isabelle
  imports Complex_Main "HOL-Library.Word"
begin

unbundle bit_operations_syntax

section \<open>Data model of the sound subsystem (namespace Sound)\<close>

type_synonym u32 = "32 word"
type_synonym u64 = "64 word"
type_synonym SoundHandle = u32

text \<open>enum ActiveSoundFlags, enum BufferFlags.\<close>

definition SOUND_ACTIVE :: u32 where "SOUND_ACTIVE = 0x08000000"
definition SOUND_PLAYING :: u32 where "SOUND_PLAYING = 0x10000000"
definition SOUND_LOOPING :: u32 where "SOUND_LOOPING = 0x20000000"
definition SOUND_PAUSED :: u32 where "SOUND_PAUSED = 0x40000000"
definition SOUND_UNUSED :: u32 where "SOUND_UNUSED = 0x80000000"

definition BUFFER_ACTIVE :: u32 where "BUFFER_ACTIVE = 1"

text \<open>struct SoundBuffer. The s32 field refCount is an \<open>int\<close>: signed overflow is
  undefined in C++ and needs 2^31 outstanding references.\<close>

record SoundBuffer =
  name :: string
  flags :: u32
  index :: u32
  refCount :: int
  lastUsed :: u64
  oalBuffer :: u32

text \<open>struct SoundInfo, as far as playSound2D reads it. The f32 values are read as the
  reals they denote; rounding is not modelled.\<close>

record SoundInfo =
  volume :: real
  pan :: real
  samplingRate :: u32
  bitRate :: u32
  stereo :: bool
  userValue :: u32

text \<open>Modelled from the spec: the native audio backend (al.h, an external collaborator
  that is not among the sources). A source is named by an ALuint; it carries the
  properties this code gets and sets, and its playback state moves as the calls
  alSourcePlay, alSourcePause and alSourceStop move it. A source that plays to its end
  stops by itself: \<open>sourceFinished\<close> is that event of the environment.\<close>

datatype al_state = AL_INITIAL | AL_PLAYING | AL_PAUSED | AL_STOPPED

record al_source =
  src_state :: al_state
  src_buffer :: u32
  src_gain :: real
  src_looping :: bool
  src_position :: real
  src_relative :: bool
  src_rolloff :: real
  src_refDistance :: real
  src_maxDistance :: real

definition al_play :: "al_source \<Rightarrow> al_source" where
  "al_play a = a\<lparr>src_state := AL_PLAYING\<rparr>"

definition al_pause :: "al_source \<Rightarrow> al_source" where
  "al_pause a = (if src_state a = AL_PLAYING then a\<lparr>src_state := AL_PAUSED\<rparr> else a)"

definition al_stop :: "al_source \<Rightarrow> al_source" where
  "al_stop a = (if src_state a = AL_INITIAL then a else a\<lparr>src_state := AL_STOPPED\<rparr>)"

definition al_finish :: "al_source \<Rightarrow> al_source" where
  "al_finish a =
     (if src_state a = AL_PLAYING \<and> \<not> src_looping a then a\<lparr>src_state := AL_STOPPED\<rparr> else a)"

definition al_fresh :: al_source where
  "al_fresh = \<lparr>src_state = AL_INITIAL, src_buffer = 0, src_gain = 1, src_looping = False,
     src_position = 0, src_relative = False, src_rolloff = 1, src_refDistance = 1,
     src_maxDistance = 1\<rparr>"

text \<open>The static variables of the namespace. \<open>s_mutex\<close> is the depth to which the one
  lock is held (0: free). \<open>s_callback\<close> says whether a completion callback is installed;
  the callback is code of the caller, and \<open>callbackLog\<close> records the values it was
  invoked with, in order. \<open>al\<close> is the state of the native sources, by name.\<close>

record sound_state =
  s_init :: bool
  s_buffers :: "SoundBuffer list"
  s_sources :: "u32 list"
  s_bufferMap :: "string \<rightharpoonup> u32"
  s_currentFrame :: u64
  s_globalVolume :: real
  s_mutex :: nat
  s_callback :: bool
  s_userValue :: "u32 list"
  s_activeSounds :: "u32 list"
  al :: "u32 \<Rightarrow> al_source"
  callbackLog :: "u32 list"

definition s_numBuffers :: nat where "s_numBuffers = 256"
definition s_maxSimulSounds :: nat where "s_maxSimulSounds = 32"

text \<open>Modelled from the spec: class Mutex (Threads/mutex.h is not among the sources), the
  single process-wide lock. Lock acquires it once more, Unlock releases it once.\<close>

definition Lock :: "sound_state \<Rightarrow> sound_state" where
  "Lock s = s\<lparr>s_mutex := Suc (s_mutex s)\<rparr>"

definition Unlock :: "sound_state \<Rightarrow> sound_state" where
  "Unlock s = s\<lparr>s_mutex := s_mutex s - 1\<rparr>"

section \<open>Handles and the per-voice word (sound_inl.h)\<close>

text \<open>Modelled from the spec: the inline helpers of sound_inl.h, which is not among the
  sources. A handle packs the buffer index into its low 8 bits, the voice slot into the
  next 5 and the 19-bit generation above them, as allocateSound builds it; decoding is
  the inverse. A voice's u32 in \<open>s_activeSounds\<close> carries the bound buffer index in its
  low 8 bits, the generation in the 19 bits above and the flags of ActiveSoundFlags in
  the top 5 bits.\<close>

definition getHandleBuffer :: "SoundHandle \<Rightarrow> u32" where
  "getHandleBuffer handle = handle AND 0xff"

definition getHandleSource :: "SoundHandle \<Rightarrow> u32" where
  "getHandleSource handle = drop_bit 8 handle AND 0x1f"

definition getHandleAllocID :: "SoundHandle \<Rightarrow> u32" where
  "getHandleAllocID handle = drop_bit 13 handle AND 0x7ffff"

definition getActiveBuffer :: "sound_state \<Rightarrow> nat \<Rightarrow> u32" where
  "getActiveBuffer s sid = (s_activeSounds s ! sid) AND 0xff"

definition getActiveAllocID :: "sound_state \<Rightarrow> nat \<Rightarrow> u32" where
  "getActiveAllocID s sid = drop_bit 8 (s_activeSounds s ! sid) AND 0x7ffff"

definition checkActiveFlag :: "sound_state \<Rightarrow> nat \<Rightarrow> u32 \<Rightarrow> bool" where
  "checkActiveFlag s sid flag = ((s_activeSounds s ! sid) AND flag \<noteq> 0)"

definition setActiveBuffer :: "sound_state \<Rightarrow> nat \<Rightarrow> u32 \<Rightarrow> sound_state" where
  "setActiveBuffer s sid bufferID =
     s\<lparr>s_activeSounds := (s_activeSounds s)
        [sid := ((s_activeSounds s ! sid) AND NOT 0xff) OR (bufferID AND 0xff)]\<rparr>"

definition setActiveAllocID :: "sound_state \<Rightarrow> nat \<Rightarrow> u32 \<Rightarrow> sound_state" where
  "setActiveAllocID s sid allocID =
     s\<lparr>s_activeSounds := (s_activeSounds s)
        [sid := ((s_activeSounds s ! sid) AND NOT 0x07ffff00) OR push_bit 8 (allocID AND 0x7ffff)]\<rparr>"

definition setActiveFlag :: "sound_state \<Rightarrow> nat \<Rightarrow> u32 \<Rightarrow> sound_state" where
  "setActiveFlag s sid flag =
     s\<lparr>s_activeSounds := (s_activeSounds s)[sid := (s_activeSounds s ! sid) OR flag]\<rparr>"

definition clearActiveFlag :: "sound_state \<Rightarrow> nat \<Rightarrow> u32 \<Rightarrow> sound_state" where
  "clearActiveFlag s sid flag =
     s\<lparr>s_activeSounds := (s_activeSounds s)[sid := (s_activeSounds s ! sid) AND NOT flag]\<rparr>"

text \<open>The handle expression of allocateSound:
  \<open>SoundHandle( bufferID | (soundID<<8) | (allocID<<13) )\<close>.\<close>

definition makeHandle :: "u32 \<Rightarrow> nat \<Rightarrow> u32 \<Rightarrow> SoundHandle" where
  "makeHandle bufferID soundID allocID =
     bufferID OR push_bit 8 (of_nat soundID) OR push_bit 13 allocID"

section \<open>Internal implementation\<close>

text \<open>The constant INVALID_SOUND_HANDLE is declared in sound.h, which is not among the
  sources: every function that reads it takes it as its first argument.\<close>

definition isActiveNoLock :: "SoundHandle \<Rightarrow> sound_state \<Rightarrow> SoundHandle \<Rightarrow> bool" where
  "isActiveNoLock INVALID_SOUND_HANDLE s handle =
     (if \<not> s_init s \<or> handle = INVALID_SOUND_HANDLE then False
      else
        let sourceID = unat (getHandleSource handle);
            bufferID = getHandleBuffer handle;
            allocID = getHandleAllocID handle;
            isActive = checkActiveFlag s sourceID SOUND_ACTIVE;
            activeAllocID = getActiveAllocID s sourceID;
            activeBufferID = getActiveBuffer s sourceID
        in allocID = activeAllocID \<and> bufferID = activeBufferID \<and> isActive)"

text \<open>getSoundBuffer: the two scans over the pool. The first returns the first slot
  without BUFFER_ACTIVE; the second carries (oldestFrame, oldestIndex) through the
  slots, starting from (0xffffffffffffffff, -1).\<close>

fun findFreeBuffer :: "SoundBuffer list \<Rightarrow> nat \<Rightarrow> nat option" where
  "findFreeBuffer [] i = None"
| "findFreeBuffer (b # bs) i =
     (if flags b AND BUFFER_ACTIVE = 0 then Some i else findFreeBuffer bs (Suc i))"

fun findOldestBuffer :: "SoundBuffer list \<Rightarrow> nat \<Rightarrow> u64 \<Rightarrow> int \<Rightarrow> u64 \<times> int" where
  "findOldestBuffer [] i oldestFrame oldestIndex = (oldestFrame, oldestIndex)"
| "findOldestBuffer (b # bs) i oldestFrame oldestIndex =
     (if refCount b = 0 \<and> lastUsed b < oldestFrame
      then findOldestBuffer bs (Suc i) (lastUsed b) (int i)
      else findOldestBuffer bs (Suc i) oldestFrame oldestIndex)"

text \<open>The result is the index of the slot returned (the source returns its address),
  or None for NULL.\<close>

definition getSoundBuffer :: "sound_state \<Rightarrow> string \<Rightarrow> nat option \<times> sound_state" where
  "getSoundBuffer s nm =
     (case s_bufferMap s nm of
        Some i \<Rightarrow> (Some (unat i), s)
      | None \<Rightarrow>
         (case findFreeBuffer (s_buffers s) 0 of
            Some i \<Rightarrow>
              (Some i, s\<lparr>s_buffers := (s_buffers s)[i := (s_buffers s ! i)\<lparr>name := nm\<rparr>],
                         s_bufferMap := (s_bufferMap s)(nm \<mapsto> of_nat i)\<rparr>)
          | None \<Rightarrow>
              (let oldestIndex = snd (findOldestBuffer (s_buffers s) 0 0xffffffffffffffff (- 1))
               in if oldestIndex \<ge> 0 then
                    let i = nat oldestIndex;
                        buffer = s_buffers s ! i;
                        m = (s_bufferMap s)(name buffer := None)
                    in (Some i,
                        s\<lparr>s_buffers := (s_buffers s)[i := buffer\<lparr>refCount := 0, flags := 0, name := nm\<rparr>],
                          s_bufferMap := m(nm \<mapsto> of_nat i)\<rparr>)
                  else (None, s))))"

fun findFreeSound :: "u32 list \<Rightarrow> nat \<Rightarrow> nat option" where
  "findFreeSound [] i = None"
| "findFreeSound (w # ws) i =
     (if w AND SOUND_PLAYING = 0 \<and> w AND SOUND_PAUSED = 0 then Some i
      else findFreeSound ws (Suc i))"

definition allocateSound :: "SoundHandle \<Rightarrow> sound_state \<Rightarrow> u32 \<Rightarrow> SoundHandle \<times> sound_state" where
  "allocateSound INVALID_SOUND_HANDLE s bufferID =
     (case findFreeSound (s_activeSounds s) 0 of
        None \<Rightarrow> (INVALID_SOUND_HANDLE, s)
      | Some soundID \<Rightarrow>
          let allocID = (getActiveAllocID s soundID + 1) AND 0x7ffff;
              s1 = setActiveBuffer s soundID bufferID;
              s2 = setActiveAllocID s1 soundID allocID;
              s3 = clearActiveFlag s2 soundID SOUND_PLAYING;
              s4 = clearActiveFlag s3 soundID SOUND_LOOPING;
              s5 = setActiveFlag s4 soundID SOUND_ACTIVE
          in (makeHandle bufferID soundID allocID, s5))"

definition playSoundInternal ::
  "sound_state \<Rightarrow> SoundHandle \<Rightarrow> real \<Rightarrow> real \<Rightarrow> bool \<Rightarrow> bool \<Rightarrow> bool \<times> sound_state" where
  "playSoundInternal s sound vol p loop is3D =
     (let sourceID = unat (getHandleSource sound);
          bufferID = unat (getHandleBuffer sound);
          oalSource = s_sources s ! sourceID;
          a0 = al_stop (al s oalSource);
          a1 = a0\<lparr>src_buffer := oalBuffer (s_buffers s ! bufferID), src_rolloff := 1\<rparr>;
          a2 = (if \<not> is3D
                then a1\<lparr>src_relative := True, src_refDistance := 15, src_maxDistance := 200,
                        src_position := p\<rparr>
                else let distScale = max vol 1
                     in a1\<lparr>src_refDistance := 15 * distScale, src_maxDistance := 200 * distScale\<rparr>);
          a3 = a2\<lparr>src_looping := loop\<rparr>;
          gain = min (vol * s_globalVolume s) 1;
          a4 = al_play (a3\<lparr>src_gain := gain\<rparr>);
          s1 = s\<lparr>al := (al s)(oalSource := a4)\<rparr>;
          s2 = setActiveFlag s1 sourceID SOUND_PLAYING;
          s3 = (if loop then setActiveFlag s2 sourceID SOUND_LOOPING else s2);
          b = s_buffers s3 ! bufferID
      in (True, s3\<lparr>s_buffers := (s_buffers s3)
                      [bufferID := b\<lparr>lastUsed := s_currentFrame s3, refCount := refCount b + 1\<rparr>]\<rparr>))"

text \<open>getRawSoundData and alBufferData: the decoder and the upload are external. What
  playSound2D does next depends only on whether alGetError reports an error after the
  upload, so the sample data, its size and its type are replaced by that answer of the
  environment, \<open>uploadError\<close>.\<close>

section \<open>API implementation\<close>

text \<open>init, on the path where the device, the context, the buffers and the sources are
  all obtained; \<open>genBuffers\<close> and \<open>genSources\<close> are the names alGenBuffers and
  alGenSources hand out.\<close>

definition init :: "u32 list \<Rightarrow> u32 list \<Rightarrow> sound_state" where
  "init genBuffers genSources =
     \<lparr>s_init = True,
      s_buffers = map (\<lambda>i. \<lparr>name = [], flags = 0, index = of_nat i, refCount = 0,
                              lastUsed = 0, oalBuffer = genBuffers ! i\<rparr>) [0..<s_numBuffers],
      s_sources = take s_maxSimulSounds genSources,
      s_bufferMap = Map.empty,
      s_currentFrame = 1,
      s_globalVolume = 0.8,
      s_mutex = 0,
      s_callback = False,
      s_userValue = replicate s_maxSimulSounds 0,
      s_activeSounds = replicate s_maxSimulSounds 0,
      al = (\<lambda>_. al_fresh),
      callbackLog = []\<rparr>"

definition resetSound :: "sound_state \<Rightarrow> nat \<Rightarrow> sound_state" where
  "resetSound s sid =
     (let src = s_sources s ! sid
      in s\<lparr>al := (al s)(src := (al_stop (al s src))\<lparr>src_buffer := 0\<rparr>),
           s_activeSounds := (s_activeSounds s)[sid := 0]\<rparr>)"

definition resetBuffer :: "sound_state \<Rightarrow> nat \<Rightarrow> sound_state" where
  "resetBuffer s b =
     s\<lparr>s_buffers := (s_buffers s)[b := (s_buffers s ! b)\<lparr>refCount := 0, flags := 0, lastUsed := 0\<rparr>]\<rparr>"

definition reset :: "sound_state \<Rightarrow> sound_state" where
  "reset s =
     (let s1 = Lock s;
          s2 = fold (\<lambda>sid st. resetSound st sid) [0..<s_maxSimulSounds] s1;
          s3 = fold (\<lambda>b st. resetBuffer st b) [0..<s_numBuffers] s2
      in Unlock s3)"

definition setCallback :: "sound_state \<Rightarrow> bool \<Rightarrow> sound_state" where
  "setCallback s callback = s\<lparr>s_callback := callback\<rparr>"

text \<open>The body of the loop of update, for the voice \<open>sid\<close>.\<close>

definition updateSound :: "sound_state \<Rightarrow> nat \<Rightarrow> sound_state" where
  "updateSound s sid =
     (if checkActiveFlag s sid SOUND_PLAYING then
        let state = src_state (al s (s_sources s ! sid));
            s1 = (if state \<noteq> AL_PLAYING then
                    let s' = (if s_callback s \<and> checkActiveFlag s sid SOUND_PLAYING then
                                let sc = s\<lparr>callbackLog := callbackLog s @ [s_userValue s ! sid]\<rparr>;
                                    bufferID = unat (getActiveBuffer sc sid);
                                    b = s_buffers sc ! bufferID
                                in sc\<lparr>s_buffers := (s_buffers sc)[bufferID := b\<lparr>refCount := refCount b - 1\<rparr>]\<rparr>
                              else s)
                    in clearActiveFlag s' sid SOUND_PLAYING
                  else s)
        in if state \<noteq> AL_PAUSED then clearActiveFlag s1 sid SOUND_PAUSED else s1
      else s)"

definition update :: "sound_state \<Rightarrow> sound_state" where
  "update s =
     (if \<not> s_init s then s
      else
        let s1 = Lock s;
            s2 = fold (\<lambda>sid st. updateSound st sid) [0..<s_maxSimulSounds] s1
        in Unlock (s2\<lparr>s_currentFrame := s_currentFrame s2 + 1\<rparr>))"

text \<open>The body of the loop of setGlobalVolume: it passes the loop counter itself to
  alGetSourcef and alSourcef as the name of the source.\<close>

definition rescaleSource :: "real \<Rightarrow> sound_state \<Rightarrow> nat \<Rightarrow> sound_state" where
  "rescaleSource scale s sid =
     (let currentVolume = src_gain (al s (of_nat sid));
          gain = min (currentVolume * scale) 1
      in s\<lparr>al := (al s)(of_nat sid := (al s (of_nat sid))\<lparr>src_gain := gain\<rparr>)\<rparr>)"

definition setGlobalVolume :: "sound_state \<Rightarrow> real \<Rightarrow> sound_state" where
  "setGlobalVolume s vol0 =
     (let vol = vol0 * 0.8
      in if vol \<noteq> s_globalVolume s \<and> s_init s then
           let s1 = Lock s;
               scale = (if s_globalVolume s1 > 0 then vol / s_globalVolume s1 else 1);
               s2 = fold (\<lambda>sid st. rescaleSource scale st sid) [0..<s_maxSimulSounds] s1
           in Unlock (s2\<lparr>s_globalVolume := vol\<rparr>)
         else s)"

definition isActive :: "SoundHandle \<Rightarrow> sound_state \<Rightarrow> SoundHandle \<Rightarrow> bool \<times> sound_state" where
  "isActive INVALID_SOUND_HANDLE s handle =
     (let s1 = Lock s;
          soundActive = isActiveNoLock INVALID_SOUND_HANDLE s1 handle
      in (soundActive, Unlock s1))"

definition isPlaying :: "SoundHandle \<Rightarrow> sound_state \<Rightarrow> SoundHandle \<Rightarrow> bool \<times> sound_state" where
  "isPlaying INVALID_SOUND_HANDLE s handle =
     (let s1 = Lock s;
          sourceID = unat (getHandleSource handle);
          soundIsPlaying = (isActiveNoLock INVALID_SOUND_HANDLE s1 handle
                            \<and> checkActiveFlag s1 sourceID SOUND_PLAYING)
      in (soundIsPlaying, Unlock s1))"

definition isLooping :: "SoundHandle \<Rightarrow> sound_state \<Rightarrow> SoundHandle \<Rightarrow> bool \<times> sound_state" where
  "isLooping INVALID_SOUND_HANDLE s handle =
     (let s1 = Lock s;
          sourceID = unat (getHandleSource handle);
          soundIsLooping = (isActiveNoLock INVALID_SOUND_HANDLE s1 handle
                            \<and> checkActiveFlag s1 sourceID SOUND_LOOPING)
      in (soundIsLooping, Unlock s1))"

text \<open>playSound2D. Its first exit after Lock, taken when getSoundBuffer returns NULL, has
  no Unlock; its exit on an upload error returns \<open>false\<close>, the handle 0.\<close>

definition playSound2D ::
  "SoundHandle \<Rightarrow> sound_state \<Rightarrow> string \<Rightarrow> bool \<Rightarrow> SoundInfo \<Rightarrow> bool \<Rightarrow> SoundHandle \<times> sound_state" where
  "playSound2D INVALID_SOUND_HANDLE s nm uploadError info looping =
     (if \<not> s_init s then (INVALID_SOUND_HANDLE, s)
      else
        let s1 = Lock s
        in case getSoundBuffer s1 nm of
             (None, s2) \<Rightarrow> (INVALID_SOUND_HANDLE, s2)
           | (Some b, s2) \<Rightarrow>
               let (sound, s3) = allocateSound INVALID_SOUND_HANDLE s2 (index (s_buffers s2 ! b));
                   cold = (flags (s_buffers s3 ! b) AND BUFFER_ACTIVE = 0)
               in if cold \<and> uploadError then (0, Unlock s3)
                  else
                    let s4 = (if cold
                              then s3\<lparr>s_buffers := (s_buffers s3)
                                     [b := (s_buffers s3 ! b)\<lparr>flags := flags (s_buffers s3 ! b) OR BUFFER_ACTIVE\<rparr>]\<rparr>
                              else s3);
                        (playResult, s5) = playSoundInternal s4 sound (volume info) (pan info) looping False
                    in if \<not> playResult then
                         let sourceID = unat (getHandleSource sound);
                             s6 = clearActiveFlag s5 sourceID SOUND_ACTIVE;
                             s7 = clearActiveFlag s6 sourceID SOUND_PLAYING;
                             s8 = clearActiveFlag s7 sourceID SOUND_LOOPING
                         in (INVALID_SOUND_HANDLE, Unlock s8)
                       else
                         let sourceID = unat (getHandleSource sound);
                             s6 = s5\<lparr>s_userValue := (s_userValue s5)[sourceID := userValue info]\<rparr>
                         in (sound, Unlock s6))"

definition playOneShot2D ::
  "SoundHandle \<Rightarrow> sound_state \<Rightarrow> string \<Rightarrow> bool \<Rightarrow> SoundInfo \<Rightarrow> bool \<times> sound_state" where
  "playOneShot2D INVALID_SOUND_HANDLE s nm uploadError info =
     (let (sound, s1) = playSound2D INVALID_SOUND_HANDLE s nm uploadError info False
      in (sound \<noteq> INVALID_SOUND_HANDLE, s1))"

definition playSoundLooping ::
  "SoundHandle \<Rightarrow> sound_state \<Rightarrow> string \<Rightarrow> bool \<Rightarrow> SoundInfo \<Rightarrow> SoundHandle \<times> sound_state" where
  "playSoundLooping INVALID_SOUND_HANDLE s nm uploadError info =
     playSound2D INVALID_SOUND_HANDLE s nm uploadError info True"

definition decRefCount :: "sound_state \<Rightarrow> nat \<Rightarrow> sound_state" where
  "decRefCount s bufferID =
     s\<lparr>s_buffers := (s_buffers s)
        [bufferID := (s_buffers s ! bufferID)\<lparr>refCount := refCount (s_buffers s ! bufferID) - 1\<rparr>]\<rparr>"

definition touchBuffer :: "sound_state \<Rightarrow> nat \<Rightarrow> sound_state" where
  "touchBuffer s bufferID =
     s\<lparr>s_buffers := (s_buffers s)
        [bufferID := (s_buffers s ! bufferID)\<lparr>lastUsed := s_currentFrame s\<rparr>]\<rparr>"

definition stopSound :: "SoundHandle \<Rightarrow> sound_state \<Rightarrow> SoundHandle \<Rightarrow> sound_state" where
  "stopSound INVALID_SOUND_HANDLE s handle =
     (let s1 = Lock s
      in if \<not> isActiveNoLock INVALID_SOUND_HANDLE s1 handle then Unlock s1
         else
           let sourceID = unat (getHandleSource handle)
           in if \<not> checkActiveFlag s1 sourceID SOUND_PLAYING then Unlock s1
              else
                let src = s_sources s1 ! sourceID;
                    s2 = s1\<lparr>al := (al s1)(src := (al_stop (al s1 src))\<lparr>src_buffer := 0\<rparr>)\<rparr>;
                    s3 = clearActiveFlag s2 sourceID SOUND_PLAYING;
                    s4 = clearActiveFlag s3 sourceID SOUND_LOOPING;
                    s5 = clearActiveFlag s4 sourceID SOUND_PAUSED;
                    bufferID = unat (getHandleBuffer handle)
                in Unlock (decRefCount s5 bufferID))"

definition stopAllSound :: "sound_state \<Rightarrow> nat \<Rightarrow> sound_state" where
  "stopAllSound s sid =
     (let src = s_sources s ! sid;
          s1 = s\<lparr>al := (al s)(src := (al_stop (al s src))\<lparr>src_buffer := 0\<rparr>)\<rparr>;
          s2 = setActiveBuffer s1 sid 0;
          s3 = clearActiveFlag s2 sid SOUND_PLAYING;
          s4 = clearActiveFlag s3 sid SOUND_LOOPING
      in clearActiveFlag s4 sid SOUND_PAUSED)"

definition stopAllSounds :: "sound_state \<Rightarrow> sound_state" where
  "stopAllSounds s =
     (let s1 = Lock s;
          s2 = fold (\<lambda>sid st. stopAllSound st sid) [0..<s_maxSimulSounds] s1;
          s3 = fold (\<lambda>b st. st\<lparr>s_buffers := (s_buffers st)[b := (s_buffers st ! b)\<lparr>refCount := 0\<rparr>]\<rparr>)
                 [0..<s_numBuffers] s2
      in Unlock s3)"

definition soundsPlaying :: "sound_state \<Rightarrow> int \<times> sound_state" where
  "soundsPlaying s =
     (let s1 = Lock s;
          numSoundsPlaying = fold (\<lambda>sid n. if checkActiveFlag s1 sid SOUND_PLAYING then n + 1 else n)
                               [0..<s_maxSimulSounds] 0
      in (numSoundsPlaying, Unlock s1))"

definition pauseSound :: "SoundHandle \<Rightarrow> sound_state \<Rightarrow> SoundHandle \<Rightarrow> sound_state" where
  "pauseSound INVALID_SOUND_HANDLE s handle =
     (let s1 = Lock s
      in if \<not> isActiveNoLock INVALID_SOUND_HANDLE s1 handle then Unlock s1
         else
           let sourceID = unat (getHandleSource handle)
           in if \<not> checkActiveFlag s1 sourceID SOUND_PLAYING then Unlock s1
              else
                let src = s_sources s1 ! sourceID;
                    s2 = s1\<lparr>al := (al s1)(src := al_pause (al s1 src))\<rparr>;
                    s3 = clearActiveFlag s2 sourceID SOUND_PLAYING;
                    s4 = setActiveFlag s3 sourceID SOUND_PAUSED;
                    bufferID = unat (getHandleBuffer handle)
                in Unlock (touchBuffer s4 bufferID))"

definition resumeSound :: "SoundHandle \<Rightarrow> sound_state \<Rightarrow> SoundHandle \<Rightarrow> sound_state" where
  "resumeSound INVALID_SOUND_HANDLE s handle =
     (let s1 = Lock s
      in if \<not> isActiveNoLock INVALID_SOUND_HANDLE s1 handle then Unlock s1
         else
           let sourceID = unat (getHandleSource handle)
           in if \<not> checkActiveFlag s1 sourceID SOUND_PAUSED then Unlock s1
              else
                let src = s_sources s1 ! sourceID;
                    s2 = s1\<lparr>al := (al s1)(src := al_play (al s1 src))\<rparr>;
                    s3 = setActiveFlag s2 sourceID SOUND_PLAYING;
                    s4 = clearActiveFlag s3 sourceID SOUND_PAUSED;
                    bufferID = unat (getHandleBuffer handle)
                in Unlock (touchBuffer s4 bufferID))"

definition setPan :: "SoundHandle \<Rightarrow> sound_state \<Rightarrow> SoundHandle \<Rightarrow> real \<Rightarrow> sound_state" where
  "setPan INVALID_SOUND_HANDLE s handle p =
     (let s1 = Lock s
      in if \<not> isActiveNoLock INVALID_SOUND_HANDLE s1 handle then Unlock s1
         else
           let sourceID = unat (getHandleSource handle);
               src = s_sources s1 ! sourceID;
               s2 = s1\<lparr>al := (al s1)(src := (al s1 src)\<lparr>src_position := p\<rparr>)\<rparr>;
               bufferID = unat (getHandleBuffer handle)
           in Unlock (touchBuffer s2 bufferID))"

definition setVolume :: "SoundHandle \<Rightarrow> sound_state \<Rightarrow> SoundHandle \<Rightarrow> real \<Rightarrow> sound_state" where
  "setVolume INVALID_SOUND_HANDLE s handle vol =
     (let s1 = Lock s
      in if \<not> isActiveNoLock INVALID_SOUND_HANDLE s1 handle then Unlock s1
         else
           let sourceID = unat (getHandleSource handle);
               gain = min (vol * s_globalVolume s1) 1;
               src = s_sources s1 ! sourceID;
               s2 = s1\<lparr>al := (al s1)(src := (al s1 src)\<lparr>src_gain := gain\<rparr>)\<rparr>;
               bufferID = unat (getHandleBuffer handle)
           in Unlock (touchBuffer s2 bufferID))"

text \<open>A source that was playing reaches the end of its buffer (the environment).\<close>

definition sourceFinished :: "sound_state \<Rightarrow> u32 \<Rightarrow> sound_state" where
  "sourceFinished s src = s\<lparr>al := (al s)(src := al_finish (al s src))\<rparr>"

text \<open>The public calls (and the one event of the environment), and the state after a
  sequence of them.\<close>

datatype call =
    PlaySound2D string bool SoundInfo bool
  | PlayOneShot2D string bool SoundInfo
  | PlaySoundLooping string bool SoundInfo
  | StopSound SoundHandle
  | StopAllSounds
  | PauseSound SoundHandle
  | ResumeSound SoundHandle
  | SetPan SoundHandle real
  | SetVolume SoundHandle real
  | SetGlobalVolume real
  | IsActive SoundHandle
  | IsPlaying SoundHandle
  | IsLooping SoundHandle
  | SoundsPlaying
  | SetCallback bool
  | Update
  | Reset
  | SourceFinished u32

fun do_call :: "SoundHandle \<Rightarrow> sound_state \<Rightarrow> call \<Rightarrow> sound_state" where
  "do_call ivh s (PlaySound2D nm e info looping) = snd (playSound2D ivh s nm e info looping)"
| "do_call ivh s (PlayOneShot2D nm e info) = snd (playOneShot2D ivh s nm e info)"
| "do_call ivh s (PlaySoundLooping nm e info) = snd (playSoundLooping ivh s nm e info)"
| "do_call ivh s (StopSound h) = stopSound ivh s h"
| "do_call ivh s StopAllSounds = stopAllSounds s"
| "do_call ivh s (PauseSound h) = pauseSound ivh s h"
| "do_call ivh s (ResumeSound h) = resumeSound ivh s h"
| "do_call ivh s (SetPan h p) = setPan ivh s h p"
| "do_call ivh s (SetVolume h v) = setVolume ivh s h v"
| "do_call ivh s (SetGlobalVolume v) = setGlobalVolume s v"
| "do_call ivh s (IsActive h) = snd (isActive ivh s h)"
| "do_call ivh s (IsPlaying h) = snd (isPlaying ivh s h)"
| "do_call ivh s (IsLooping h) = snd (isLooping ivh s h)"
| "do_call ivh s SoundsPlaying = snd (soundsPlaying s)"
| "do_call ivh s (SetCallback c) = setCallback s c"
| "do_call ivh s Update = update s"
| "do_call ivh s Reset = reset s"
| "do_call ivh s (SourceFinished src) = sourceFinished s src"

definition run :: "SoundHandle \<Rightarrow> sound_state \<Rightarrow> call list \<Rightarrow> sound_state" where
  "run ivh s cs = fold (\<lambda>c st. do_call ivh st c) cs s"

section \<open>Reading a voice word\<close>

text \<open>The two fields below the flags of a voice word, as getActiveBuffer and
  getActiveAllocID read them, and whether the voice is in use, which is what allocateSound
  tests: SOUND_PLAYING (bit 28) or SOUND_PAUSED (bit 30).\<close>

definition vbuf :: "u32 \<Rightarrow> u32" where
  "vbuf w = w AND 0xff"

definition vgen :: "u32 \<Rightarrow> u32" where
  "vgen w = drop_bit 8 w AND 0x7ffff"

definition busy :: "u32 \<Rightarrow> bool" where
  "busy w = (bit w 28 \<or> bit w 30)"

text \<open>The eviction policy in the words of the specification: among the slots with
  refCount 0, the one with the smallest lastUsed, the lowest index where several share
  it.\<close>

definition lruVictim :: "SoundBuffer list \<Rightarrow> nat \<Rightarrow> bool" where
  "lruVictim bs m =
     (m < length bs \<and> refCount (bs ! m) = 0
      \<and> (\<forall>j<length bs. refCount (bs ! j) = 0 \<longrightarrow> lastUsed (bs ! m) \<le> lastUsed (bs ! j))
      \<and> (\<forall>j<m. refCount (bs ! j) = 0 \<longrightarrow> lastUsed (bs ! j) \<noteq> lastUsed (bs ! m)))"


text \<open>The voice word that allocateSound leaves in the slot it takes, the one that
  playSoundInternal leaves, and the properties playSoundInternal gives the 2D source.\<close>

definition allocWord :: "u32 \<Rightarrow> u32 \<Rightarrow> u32" where
  "allocWord w bufferID =
     (((((((w AND NOT 0xff) OR (bufferID AND 0xff)) AND NOT 0x07ffff00)
         OR push_bit 8 (((vgen w + 1) AND 0x7ffff) AND 0x7ffff))
        AND NOT SOUND_PLAYING) AND NOT SOUND_LOOPING) OR SOUND_ACTIVE)"

definition playWord :: "u32 \<Rightarrow> bool \<Rightarrow> u32" where
  "playWord w loop = (if loop then (w OR SOUND_PLAYING) OR SOUND_LOOPING else w OR SOUND_PLAYING)"

definition playSource :: "al_source \<Rightarrow> u32 \<Rightarrow> real \<Rightarrow> real \<Rightarrow> bool \<Rightarrow> al_source" where
  "playSource a buf gain p loop =
     (al_stop a)\<lparr>src_buffer := buf, src_rolloff := 1, src_relative := True,
        src_refDistance := 15, src_maxDistance := 200, src_position := p,
        src_looping := loop, src_gain := gain, src_state := AL_PLAYING\<rparr>"

text \<open>The step of playSound2D that sets BUFFER_ACTIVE on a buffer that was not loaded.\<close>

definition markLoaded :: "sound_state \<Rightarrow> nat \<Rightarrow> sound_state" where
  "markLoaded s b =
     (if flags (s_buffers s ! b) AND BUFFER_ACTIVE = 0
      then s\<lparr>s_buffers := (s_buffers s)
             [b := (s_buffers s ! b)\<lparr>flags := flags (s_buffers s ! b) OR BUFFER_ACTIVE\<rparr>]\<rparr>
      else s)"

text \<open>A concrete initial state, with the names 1..256 for the buffers and 1..32 for the
  sources, and a concrete SoundInfo.\<close>

definition genBuffers0 :: "u32 list" where "genBuffers0 = map of_nat [1..<257]"
definition genSources0 :: "u32 list" where "genSources0 = map of_nat [1..<33]"
definition st0 :: sound_state where "st0 = init genBuffers0 genSources0"
definition info0 :: SoundInfo where
  "info0 = \<lparr>volume = 1, pan = 0, samplingRate = 11025, bitRate = 8, stereo = False, userValue = 7\<rparr>"


text \<open>The number of voices in use that are bound to buffer \<open>b\<close>.\<close>

definition busyCount :: "u32 list \<Rightarrow> nat \<Rightarrow> int" where
  "busyCount ws b = int (length (filter (\<lambda>w. busy w \<and> unat (vbuf w) = b) ws))"

text \<open>The invariant of the subsystem: the arrays have their sizes, the sources have
  distinct names, every buffer carries its own index, the index maps names to slots of
  the pool, a voice flagged PLAYING is never paused natively, and every buffer's refCount
  is at least the number of voices in use that are bound to it.\<close>

definition soundInv :: "sound_state \<Rightarrow> bool" where
  "soundInv s =
     (length (s_activeSounds s) = 32 \<and> length (s_buffers s) = 256
      \<and> length (s_sources s) = 32 \<and> distinct (s_sources s)
      \<and> (\<forall>b<256. index (s_buffers s ! b) = of_nat b)
      \<and> (\<forall>nm i. s_bufferMap s nm = Some i \<longrightarrow> unat i < 256)
      \<and> (\<forall>v<32. bit (s_activeSounds s ! v) 28
             \<longrightarrow> src_state (al s (s_sources s ! v)) \<noteq> AL_PAUSED)
      \<and> (\<forall>b<256. busyCount (s_activeSounds s) b \<le> refCount (s_buffers s ! b)))"

text \<open>What one pass of the loop of update does to the word of a voice, given the state
  its source reports, and the test under which the voice counts as finished: flagged
  PLAYING while its source is not playing.\<close>

definition updateWord :: "al_state \<Rightarrow> u32 \<Rightarrow> u32" where
  "updateWord st w =
     (if bit w 28
      then (if st \<noteq> AL_PAUSED
            then (if st \<noteq> AL_PLAYING then w AND NOT SOUND_PLAYING else w) AND NOT SOUND_PAUSED
            else (if st \<noteq> AL_PLAYING then w AND NOT SOUND_PLAYING else w))
      else w)"

definition finishes :: "sound_state \<Rightarrow> nat \<Rightarrow> bool" where
  "finishes s v =
     (checkActiveFlag s v SOUND_PLAYING \<and> src_state (al s (s_sources s ! v)) \<noteq> AL_PLAYING)"

text \<open>The state in which a tick finds a voice finished: a completion callback is
  installed, \<open>a\<close> is played from the initial state on voice 0 (source 1), and the source
  has played to its end.\<close>

definition tickState :: sound_state where
  "tickState = sourceFinished
     (snd (playSound2D 0xffffffff (setCallback st0 True) ''a'' False info0 False)) 1"

text \<open>The states of two short scenarios: after \<open>a\<close> is played from the initial state, and
  after a reset and a second play of \<open>a\<close>, or of \<open>b\<close>.\<close>

definition afterPlay :: sound_state where
  "afterPlay = snd (playSound2D 0xffffffff st0 ''a'' False info0 False)"


definition afterOther :: sound_state where
  "afterOther = snd (playSound2D 0xffffffff (reset afterPlay) ''b'' False info0 False)"

text \<open>The state after \<open>a\<close> has been played 32 times from the initial state, so that every
  voice is playing, and a SoundInfo with another userValue.\<close>

definition allPlaying :: sound_state where
  "allPlaying = run 0xffffffff st0 (replicate 32 (PlaySound2D ''a'' False info0 False))"

definition info1 :: SoundInfo where
  "info1 = info0\<lparr>userValue := 9\<rparr>"

text \<open>What holds after the first \<open>k\<close> of these calls.\<close>

definition playedVoices :: "nat \<Rightarrow> sound_state \<Rightarrow> bool" where
  "playedVoices k s =
     (s_init s \<and> soundInv s \<and> s_mutex s = 0 \<and> s_sources s = genSources0
      \<and> s_globalVolume s = 0.8 \<and> length (s_userValue s) = 32
      \<and> s_bufferMap s ''a'' = Some 0 \<and> flags (s_buffers s ! 0) AND BUFFER_ACTIVE \<noteq> 0
      \<and> refCount (s_buffers s ! 255) = 0
      \<and> (\<forall>v<k. bit (s_activeSounds s ! v) 28 \<and> \<not> bit (s_activeSounds s ! v) 29
             \<and> s_userValue s ! v = 7 \<and> src_gain (al s (genSources0 ! v)) = 0.8)
      \<and> (\<forall>v. k \<le> v \<and> v < 32 \<longrightarrow> \<not> busy (s_activeSounds s ! v)))"

text \<open>A call sequence that uses up the buffer pool. With no completion callback
  installed, update does not give back the reference of a sound that has played to its
  end, so each round of "play a new name on voice 0, let its source (name 1) finish,
  update" leaves one more buffer with a refCount above zero. \<open>soundName k\<close> is the
  name played in round \<open>k\<close>; \<open>leakState\<close> is the state after 256 rounds.\<close>

definition soundName :: "nat \<Rightarrow> string" where
  "soundName k = replicate (Suc k) CHR ''s''"

fun leakCalls :: "nat \<Rightarrow> call list" where
  "leakCalls 0 = []"
| "leakCalls (Suc k) =
     leakCalls k @ [PlaySound2D (soundName k) False info0 False, SourceFinished 1, Update]"

definition leakState :: sound_state where
  "leakState = run 0xffffffff st0 (leakCalls 256)"

text \<open>What holds after \<open>k\<close> rounds.\<close>

definition leaked :: "nat \<Rightarrow> sound_state \<Rightarrow> bool" where
  "leaked k s =
     (s_init s \<and> soundInv s \<and> s_mutex s = 0 \<and> \<not> s_callback s \<and> s_sources s = genSources0
      \<and> (\<forall>v<32. \<not> busy (s_activeSounds s ! v))
      \<and> (\<forall>b<k. flags (s_buffers s ! b) AND BUFFER_ACTIVE \<noteq> 0 \<and> 1 \<le> refCount (s_buffers s ! b))
      \<and> (\<forall>b. k \<le> b \<and> b < 256 \<longrightarrow> flags (s_buffers s ! b) AND BUFFER_ACTIVE = 0)
      \<and> (\<forall>j. k \<le> j \<longrightarrow> s_bufferMap s (soundName j) = None))"

section \<open>Bit fields\<close>

lemma mask_consts:
  "(0xff :: u32) = mask 8" "(0x1f :: u32) = mask 5" "(0x7ffff :: u32) = mask 19"
  "(0x07ffff00 :: u32) = push_bit 8 (mask 19)"
  by (simp_all add: mask_eq_exp_minus_1)

lemma flag_consts:
  "SOUND_ACTIVE = push_bit 27 1" "SOUND_PLAYING = push_bit 28 1"
  "SOUND_LOOPING = push_bit 29 1" "SOUND_PAUSED = push_bit 30 1"
  by (simp_all add: SOUND_ACTIVE_def SOUND_PLAYING_def SOUND_LOOPING_def SOUND_PAUSED_def)

lemma and_single_bit:
  fixes w :: u32
  shows "(w AND push_bit k 1 \<noteq> 0) = bit w k"
  using and_exp_eq_0_iff_not_bit [of w k] by (simp add: push_bit_of_1)

lemma flag_bit:
  fixes w :: u32
  shows "(w AND SOUND_ACTIVE \<noteq> 0) = bit w 27" "(w AND SOUND_PLAYING \<noteq> 0) = bit w 28"
    "(w AND SOUND_LOOPING \<noteq> 0) = bit w 29" "(w AND SOUND_PAUSED \<noteq> 0) = bit w 30"
    "(w AND SOUND_ACTIVE = 0) = (\<not> bit w 27)" "(w AND SOUND_PLAYING = 0) = (\<not> bit w 28)"
    "(w AND SOUND_LOOPING = 0) = (\<not> bit w 29)" "(w AND SOUND_PAUSED = 0) = (\<not> bit w 30)"
  using and_single_bit [of w 27] and_single_bit [of w 28] and_single_bit [of w 29]
    and_single_bit [of w 30]
  unfolding flag_consts by auto

lemma set_flag_fields:
  fixes w :: u32
  assumes "27 \<le> k"
  shows "vbuf (w OR push_bit k 1) = vbuf w" "vgen (w OR push_bit k 1) = vgen w"
    "vbuf (w AND NOT (push_bit k 1)) = vbuf w" "vgen (w AND NOT (push_bit k 1)) = vgen w"
  unfolding vbuf_def vgen_def mask_consts
  using assms by (rule_tac [!] bit_word_eqI) (auto simp: bit_simps)

lemma set_flag_bits:
  fixes w :: u32
  assumes "k < 32"
  shows "bit (w OR push_bit k 1) j = (j = k \<or> bit w j)"
    "bit (w AND NOT (push_bit k 1)) j = (j \<noteq> k \<and> bit w j)"
  using assms by (auto simp: bit_simps dest: bit_imp_le_length)

lemma set_buf_fields:
  fixes w b :: u32
  shows "vbuf ((w AND NOT 0xff) OR (b AND 0xff)) = b AND 0xff"
    "vgen ((w AND NOT 0xff) OR (b AND 0xff)) = vgen w"
  unfolding vbuf_def vgen_def mask_consts
  by (rule_tac [!] bit_word_eqI) (auto simp: bit_simps)

lemma set_buf_flags:
  fixes w b :: u32
  shows "27 \<le> j \<Longrightarrow> bit ((w AND NOT 0xff) OR (b AND 0xff)) j = bit w j"
  unfolding mask_consts
  by (auto simp: bit_simps dest: bit_imp_le_length)

lemma set_gen_fields:
  fixes w a :: u32
  shows "vbuf ((w AND NOT 0x07ffff00) OR push_bit 8 (a AND 0x7ffff)) = vbuf w"
    "vgen ((w AND NOT 0x07ffff00) OR push_bit 8 (a AND 0x7ffff)) = a AND 0x7ffff"
  unfolding vbuf_def vgen_def mask_consts
  by (rule_tac [!] bit_word_eqI) (auto simp: bit_simps)

lemma set_gen_flags:
  fixes w a :: u32
  shows "27 \<le> j \<Longrightarrow> bit ((w AND NOT 0x07ffff00) OR push_bit 8 (a AND 0x7ffff)) j = bit w j"
  unfolding mask_consts
  by (auto simp: bit_simps dest: bit_imp_le_length)

lemma vbuf_lt: "unat (vbuf w) < 256"
proof -
  have "vbuf w \<le> 0xff" unfolding vbuf_def by (rule word_and_le1)
  then have "unat (vbuf w) \<le> unat (0xff :: u32)" by (simp add: word_le_nat_alt)
  then show ?thesis by simp
qed

lemma getHandleSource_lt: "unat (getHandleSource h) < 32"
proof -
  have "getHandleSource h \<le> 0x1f" unfolding getHandleSource_def by (rule word_and_le1)
  then have "unat (getHandleSource h) \<le> unat (0x1f :: u32)" by (simp add: word_le_nat_alt)
  then show ?thesis by simp
qed

lemma getHandleBuffer_lt: "unat (getHandleBuffer h) < 256"
  using vbuf_lt [of h] by (simp add: vbuf_def getHandleBuffer_def)

lemma decode_take_bit:
  fixes b g :: u32
  shows "getHandleBuffer (makeHandle (take_bit 8 b) (take_bit 5 v) (take_bit 19 g)) = take_bit 8 b"
    and "getHandleSource (makeHandle (take_bit 8 b) (take_bit 5 v) (take_bit 19 g)) = of_nat (take_bit 5 v)"
    and "getHandleAllocID (makeHandle (take_bit 8 b) (take_bit 5 v) (take_bit 19 g)) = take_bit 19 g"
  unfolding getHandleBuffer_def getHandleSource_def getHandleAllocID_def makeHandle_def mask_consts
  by (rule bit_word_eqI; auto simp: bit_simps)+

lemma decode_makeHandle:
  fixes b g :: u32 and v :: nat
  assumes "b < 256" and "v < 32" and "g < 2 ^ 19"
  shows "getHandleBuffer (makeHandle b v g) = b"
    and "unat (getHandleSource (makeHandle b v g)) = v"
    and "getHandleAllocID (makeHandle b v g) = g"
proof -
  have b: "take_bit 8 b = b"
    using less_mask_eq [of b 8] assms(1) by (simp add: take_bit_eq_mask)
  have v: "take_bit 5 v = v"
    using assms(2) by (simp add: take_bit_nat_eq_self)
  have g: "take_bit 19 g = g"
    using less_mask_eq [of g 19] assms(3) by (simp add: take_bit_eq_mask)
  have u: "unat (of_nat v :: u32) = v"
    using assms(2) by (simp add: unat_of_nat)
  show "getHandleBuffer (makeHandle b v g) = b"
    using decode_take_bit(1) [of b v g] by (simp add: b v g)
  show "unat (getHandleSource (makeHandle b v g)) = v"
    using decode_take_bit(2) [of b v g] u by (simp add: b v g)
  show "getHandleAllocID (makeHandle b v g) = g"
    using decode_take_bit(3) [of b v g] by (simp add: b v g)
qed

section \<open>The handle codec\<close>

text \<open>Claim C7. For every buffer index below 256, voice slot below 32 and generation
  below 2^19, decoding the handle that allocateSound builds from the three gives the
  three back: the fields of a handle are disjoint. The decoders are functions of the
  handle alone, defined on every 32-bit value.\<close>

theorem handle_roundtrip:
  fixes bufferIndex generation :: u32 and voiceSlot :: nat
  assumes "bufferIndex < 256" and "voiceSlot < 32" and "generation < 2 ^ 19"
  shows "getHandleBuffer (makeHandle bufferIndex voiceSlot generation) = bufferIndex
       \<and> unat (getHandleSource (makeHandle bufferIndex voiceSlot generation)) = voiceSlot
       \<and> getHandleAllocID (makeHandle bufferIndex voiceSlot generation) = generation"
  using decode_makeHandle [OF assms] by simp

theorem handle_roundtrip_witness:
  "(200 :: u32) < 256 \<and> (17 :: nat) < 32 \<and> (300000 :: u32) < 2 ^ 19
   \<and> getHandleBuffer (makeHandle 200 17 300000) = 200
   \<and> unat (getHandleSource (makeHandle 200 17 300000)) = 17
   \<and> getHandleAllocID (makeHandle 200 17 300000) = 300000"
  using handle_roundtrip [of 200 17 300000] by simp

section \<open>The lock and the liveness test\<close>

lemma Unlock_Lock [simp]: "Unlock (Lock s) = s"
  by (simp add: Lock_def Unlock_def)

lemma Lock_fields [simp]:
  "s_init (Lock s) = s_init s" "s_buffers (Lock s) = s_buffers s"
  "s_sources (Lock s) = s_sources s" "s_bufferMap (Lock s) = s_bufferMap s"
  "s_currentFrame (Lock s) = s_currentFrame s" "s_globalVolume (Lock s) = s_globalVolume s"
  "s_callback (Lock s) = s_callback s" "s_userValue (Lock s) = s_userValue s"
  "s_activeSounds (Lock s) = s_activeSounds s" "al (Lock s) = al s"
  "callbackLog (Lock s) = callbackLog s" "s_mutex (Lock s) = Suc (s_mutex s)"
  by (simp_all add: Lock_def)

lemma Unlock_fields [simp]:
  "s_init (Unlock s) = s_init s" "s_buffers (Unlock s) = s_buffers s"
  "s_sources (Unlock s) = s_sources s" "s_bufferMap (Unlock s) = s_bufferMap s"
  "s_currentFrame (Unlock s) = s_currentFrame s" "s_globalVolume (Unlock s) = s_globalVolume s"
  "s_callback (Unlock s) = s_callback s" "s_userValue (Unlock s) = s_userValue s"
  "s_activeSounds (Unlock s) = s_activeSounds s" "al (Unlock s) = al s"
  "callbackLog (Unlock s) = callbackLog s" "s_mutex (Unlock s) = s_mutex s - 1"
  by (simp_all add: Unlock_def)

lemma isActiveNoLock_iff:
  "isActiveNoLock ivh s h =
     (s_init s \<and> h \<noteq> ivh
      \<and> getHandleAllocID h = vgen (s_activeSounds s ! unat (getHandleSource h))
      \<and> getHandleBuffer h = vbuf (s_activeSounds s ! unat (getHandleSource h))
      \<and> bit (s_activeSounds s ! unat (getHandleSource h)) 27)"
  by (auto simp: isActiveNoLock_def Let_def checkActiveFlag_def getActiveAllocID_def
      getActiveBuffer_def vbuf_def vgen_def flag_bit)

lemma isActiveNoLock_Lock [simp]: "isActiveNoLock ivh (Lock s) h = isActiveNoLock ivh s h"
  by (simp add: isActiveNoLock_iff)


section \<open>The scans for a free buffer and for a free voice\<close>

lemma findFreeBuffer_None:
  "(findFreeBuffer bs k = None) = (\<forall>b\<in>set bs. flags b AND BUFFER_ACTIVE \<noteq> 0)"
  by (induction bs arbitrary: k) auto

lemma findFreeBuffer_Some:
  "findFreeBuffer bs k = Some i \<Longrightarrow>
     k \<le> i \<and> i - k < length bs \<and> flags (bs ! (i - k)) AND BUFFER_ACTIVE = 0
     \<and> (\<forall>j<i - k. flags (bs ! j) AND BUFFER_ACTIVE \<noteq> 0)"
proof (induction bs arbitrary: k)
  case Nil
  then show ?case by simp
next
  case (Cons b bs)
  show ?case
  proof (cases "flags b AND BUFFER_ACTIVE = 0")
    case True
    with Cons.prems show ?thesis by simp
  next
    case False
    with Cons.prems have r: "findFreeBuffer bs (Suc k) = Some i" by simp
    from Cons.IH [OF r] have a: "Suc k \<le> i" "i - Suc k < length bs"
      "flags (bs ! (i - Suc k)) AND BUFFER_ACTIVE = 0"
      "\<forall>j<i - Suc k. flags (bs ! j) AND BUFFER_ACTIVE \<noteq> 0" by auto
    from a(1) have e: "i - k = Suc (i - Suc k)" by simp
    show ?thesis using a False unfolding e
      by (auto simp: nth_Cons split: nat.splits)
  qed
qed

lemma findFreeBuffer_first:
  assumes "i < length bs" and "flags (bs ! i) AND BUFFER_ACTIVE = 0"
    and "\<forall>j<i. flags (bs ! j) AND BUFFER_ACTIVE \<noteq> 0"
  shows "findFreeBuffer bs 0 = Some i"
proof (cases "findFreeBuffer bs 0")
  case None
  with assms(1,2) show ?thesis by (auto simp: findFreeBuffer_None)
next
  case (Some i')
  from findFreeBuffer_Some [OF Some] have a: "i' < length bs"
    "flags (bs ! i') AND BUFFER_ACTIVE = 0" "\<forall>j<i'. flags (bs ! j) AND BUFFER_ACTIVE \<noteq> 0"
    by auto
  have "i' = i"
    using a assms by (meson linorder_neqE_nat)
  with Some show ?thesis by simp
qed

lemma findFreeSound_None:
  "(findFreeSound ws k = None) = (\<forall>w\<in>set ws. busy w)"
  by (induction ws arbitrary: k) (auto simp: busy_def flag_bit)

lemma findFreeSound_Some:
  "findFreeSound ws k = Some i \<Longrightarrow>
     k \<le> i \<and> i - k < length ws \<and> \<not> busy (ws ! (i - k)) \<and> (\<forall>j<i - k. busy (ws ! j))"
proof (induction ws arbitrary: k)
  case Nil
  then show ?case by simp
next
  case (Cons w ws)
  show ?case
  proof (cases "busy w")
    case False
    with Cons.prems show ?thesis by (auto simp: busy_def flag_bit)
  next
    case True
    with Cons.prems have r: "findFreeSound ws (Suc k) = Some i"
      by (auto simp: busy_def flag_bit)
    from Cons.IH [OF r] have a: "Suc k \<le> i" "i - Suc k < length ws"
      "\<not> busy (ws ! (i - Suc k))" "\<forall>j<i - Suc k. busy (ws ! j)" by auto
    from a(1) have e: "i - k = Suc (i - Suc k)" by simp
    show ?thesis using a True unfolding e
      by (auto simp: nth_Cons split: nat.splits)
  qed
qed

lemma findFreeSound_first:
  assumes "i < length ws" and "\<not> busy (ws ! i)" and "\<forall>j<i. busy (ws ! j)"
  shows "findFreeSound ws 0 = Some i"
proof (cases "findFreeSound ws 0")
  case None
  with assms(1,2) show ?thesis by (auto simp: findFreeSound_None)
next
  case (Some i')
  from findFreeSound_Some [OF Some] have a: "i' < length ws" "\<not> busy (ws ! i')"
    "\<forall>j<i'. busy (ws ! j)" by auto
  have "i' = i"
    using a assms by (meson linorder_neqE_nat)
  with Some show ?thesis by simp
qed

section \<open>The scan for the oldest unreferenced buffer\<close>

text \<open>When some slot is unreferenced and was last used before the tick the scan starts
  from, the scan returns the first of the slots that are oldest among the unreferenced
  ones; otherwise it returns what it started from.\<close>

lemma findOldestBuffer_char:
  "findOldestBuffer bs k f0 i0 = (f1, i1) \<Longrightarrow>
     (if \<exists>j<length bs. refCount (bs ! j) = 0 \<and> lastUsed (bs ! j) < f0
      then \<exists>m<length bs. i1 = int (k + m) \<and> f1 = lastUsed (bs ! m) \<and> refCount (bs ! m) = 0
             \<and> lastUsed (bs ! m) < f0
             \<and> (\<forall>j<length bs. refCount (bs ! j) = 0 \<longrightarrow> lastUsed (bs ! m) \<le> lastUsed (bs ! j))
             \<and> (\<forall>j<m. refCount (bs ! j) = 0 \<longrightarrow> lastUsed (bs ! m) < lastUsed (bs ! j))
      else f1 = f0 \<and> i1 = i0)"
proof (induction bs arbitrary: k f0 i0)
  case Nil
  then show ?case by simp
next
  case (Cons b bs)
  show ?case
  proof (cases "refCount b = 0 \<and> lastUsed b < f0")
    case True
    with Cons.prems have r: "findOldestBuffer bs (Suc k) (lastUsed b) (int k) = (f1, i1)"
      by simp
    note ih = Cons.IH [OF r]
    show ?thesis
    proof (cases "\<exists>j<length bs. refCount (bs ! j) = 0 \<and> lastUsed (bs ! j) < lastUsed b")
      case ex: True
      with ih obtain m where m: "m < length bs" "i1 = int (Suc k + m)" "f1 = lastUsed (bs ! m)"
        "refCount (bs ! m) = 0" "lastUsed (bs ! m) < lastUsed b"
        "\<forall>j<length bs. refCount (bs ! j) = 0 \<longrightarrow> lastUsed (bs ! m) \<le> lastUsed (bs ! j)"
        "\<forall>j<m. refCount (bs ! j) = 0 \<longrightarrow> lastUsed (bs ! m) < lastUsed (bs ! j)"
        by auto
      have c: "\<exists>j<length (b # bs). refCount ((b # bs) ! j) = 0 \<and> lastUsed ((b # bs) ! j) < f0"
        using True by (intro exI [of _ 0]) simp
      have "Suc m < length (b # bs) \<and> i1 = int (k + Suc m) \<and> f1 = lastUsed ((b # bs) ! Suc m)
          \<and> refCount ((b # bs) ! Suc m) = 0 \<and> lastUsed ((b # bs) ! Suc m) < f0
          \<and> (\<forall>j<length (b # bs). refCount ((b # bs) ! j) = 0
                \<longrightarrow> lastUsed ((b # bs) ! Suc m) \<le> lastUsed ((b # bs) ! j))
          \<and> (\<forall>j<Suc m. refCount ((b # bs) ! j) = 0
                \<longrightarrow> lastUsed ((b # bs) ! Suc m) < lastUsed ((b # bs) ! j))"
        using m True by (auto simp: nth_Cons split: nat.splits)
      with c show ?thesis by (simp only: if_True) blast
    next
      case nex: False
      with ih have e: "f1 = lastUsed b" "i1 = int k" by auto
      have c: "\<exists>j<length (b # bs). refCount ((b # bs) ! j) = 0 \<and> lastUsed ((b # bs) ! j) < f0"
        using True by (intro exI [of _ 0]) simp
      have "0 < length (b # bs) \<and> i1 = int (k + 0) \<and> f1 = lastUsed ((b # bs) ! 0)
          \<and> refCount ((b # bs) ! 0) = 0 \<and> lastUsed ((b # bs) ! 0) < f0
          \<and> (\<forall>j<length (b # bs). refCount ((b # bs) ! j) = 0
                \<longrightarrow> lastUsed ((b # bs) ! 0) \<le> lastUsed ((b # bs) ! j))
          \<and> (\<forall>j<0. refCount ((b # bs) ! j) = 0
                \<longrightarrow> lastUsed ((b # bs) ! 0) < lastUsed ((b # bs) ! j))"
        using e True nex by (auto simp: nth_Cons not_less split: nat.splits)
      with c show ?thesis by (simp only: if_True) blast
    qed
  next
    case False
    with Cons.prems have r: "findOldestBuffer bs (Suc k) f0 i0 = (f1, i1)"
      by auto
    note ih = Cons.IH [OF r]
    show ?thesis
    proof (cases "\<exists>j<length bs. refCount (bs ! j) = 0 \<and> lastUsed (bs ! j) < f0")
      case ex: True
      with ih obtain m where m: "m < length bs" "i1 = int (Suc k + m)" "f1 = lastUsed (bs ! m)"
        "refCount (bs ! m) = 0" "lastUsed (bs ! m) < f0"
        "\<forall>j<length bs. refCount (bs ! j) = 0 \<longrightarrow> lastUsed (bs ! m) \<le> lastUsed (bs ! j)"
        "\<forall>j<m. refCount (bs ! j) = 0 \<longrightarrow> lastUsed (bs ! m) < lastUsed (bs ! j)"
        by auto
      from ex obtain j where "j < length bs" "refCount (bs ! j) = 0 \<and> lastUsed (bs ! j) < f0"
        by blast
      then have c: "\<exists>j<length (b # bs). refCount ((b # bs) ! j) = 0 \<and> lastUsed ((b # bs) ! j) < f0"
        by (intro exI [of _ "Suc j"]) simp
      have "Suc m < length (b # bs) \<and> i1 = int (k + Suc m) \<and> f1 = lastUsed ((b # bs) ! Suc m)
          \<and> refCount ((b # bs) ! Suc m) = 0 \<and> lastUsed ((b # bs) ! Suc m) < f0
          \<and> (\<forall>j<length (b # bs). refCount ((b # bs) ! j) = 0
                \<longrightarrow> lastUsed ((b # bs) ! Suc m) \<le> lastUsed ((b # bs) ! j))
          \<and> (\<forall>j<Suc m. refCount ((b # bs) ! j) = 0
                \<longrightarrow> lastUsed ((b # bs) ! Suc m) < lastUsed ((b # bs) ! j))"
        using m False by (auto simp: nth_Cons not_less split: nat.splits)
      with c show ?thesis by (simp only: if_True) blast
    next
      case nex: False
      with ih have e: "f1 = f0" "i1 = i0" by auto
      have n: "\<not> (\<exists>j<length (b # bs). refCount ((b # bs) ! j) = 0 \<and> lastUsed ((b # bs) ! j) < f0)"
        using nex False by (auto simp: nth_Cons split: nat.splits)
      show ?thesis unfolding if_not_P [OF n] using e by simp
    qed
  qed
qed

lemma getSoundBuffer_hit:
  "s_bufferMap s nm = Some i \<Longrightarrow> getSoundBuffer s nm = (Some (unat i), s)"
  by (simp add: getSoundBuffer_def)

lemma getSoundBuffer_free:
  "s_bufferMap s nm = None \<Longrightarrow> findFreeBuffer (s_buffers s) 0 = Some i \<Longrightarrow>
   getSoundBuffer s nm =
     (Some i, s\<lparr>s_buffers := (s_buffers s)[i := (s_buffers s ! i)\<lparr>name := nm\<rparr>],
                s_bufferMap := (s_bufferMap s)(nm \<mapsto> of_nat i)\<rparr>)"
  by (simp add: getSoundBuffer_def)

lemma getSoundBuffer_evict:
  "s_bufferMap s nm = None \<Longrightarrow> findFreeBuffer (s_buffers s) 0 = None \<Longrightarrow>
   snd (findOldestBuffer (s_buffers s) 0 0xffffffffffffffff (- 1)) = int m \<Longrightarrow>
   getSoundBuffer s nm =
     (Some m, s\<lparr>s_buffers := (s_buffers s)
                   [m := (s_buffers s ! m)\<lparr>refCount := 0, flags := 0, name := nm\<rparr>],
                s_bufferMap := ((s_bufferMap s)(name (s_buffers s ! m) := None))(nm \<mapsto> of_nat m)\<rparr>)"
  by (simp add: getSoundBuffer_def Let_def)

lemma getSoundBuffer_full:
  "s_bufferMap s nm = None \<Longrightarrow> findFreeBuffer (s_buffers s) 0 = None \<Longrightarrow>
   snd (findOldestBuffer (s_buffers s) 0 0xffffffffffffffff (- 1)) = - 1 \<Longrightarrow>
   getSoundBuffer s nm = (None, s)"
  by (simp add: getSoundBuffer_def Let_def)

lemma u64_less_max: "(x < (0xffffffffffffffff :: u64)) = (x \<noteq> 0xffffffffffffffff)"
proof -
  have "(0xffffffffffffffff :: u64) = - 1" by simp
  then show ?thesis by (metis word_order.not_eq_extremum)
qed

lemma findOldestBuffer_none:
  assumes "\<forall>j<length bs. refCount (bs ! j) = 0 \<longrightarrow> lastUsed (bs ! j) = 0xffffffffffffffff"
  shows "snd (findOldestBuffer bs 0 0xffffffffffffffff (- 1)) = - 1"
proof -
  obtain f1 i1 where r: "findOldestBuffer bs 0 0xffffffffffffffff (- 1) = (f1, i1)"
    by (cases "findOldestBuffer bs 0 0xffffffffffffffff (- 1)") auto
  have n: "\<not> (\<exists>j<length bs. refCount (bs ! j) = 0 \<and> lastUsed (bs ! j) < 0xffffffffffffffff)"
    using assms by (auto simp: u64_less_max)
  from findOldestBuffer_char [OF r] show ?thesis
    unfolding if_not_P [OF n] using r by simp
qed


lemma findOldestBuffer_victim:
  assumes "snd (findOldestBuffer bs 0 0xffffffffffffffff (- 1)) \<ge> 0"
  shows "\<exists>m. snd (findOldestBuffer bs 0 0xffffffffffffffff (- 1)) = int m \<and> lruVictim bs m
            \<and> lastUsed (bs ! m) \<noteq> 0xffffffffffffffff"
proof -
  obtain f1 i1 where r: "findOldestBuffer bs 0 0xffffffffffffffff (- 1) = (f1, i1)"
    by (cases "findOldestBuffer bs 0 0xffffffffffffffff (- 1)") auto
  have e: "\<exists>j<length bs. refCount (bs ! j) = 0 \<and> lastUsed (bs ! j) < 0xffffffffffffffff"
  proof (rule ccontr)
    assume n: "\<not> ?thesis"
    from findOldestBuffer_char [OF r] have "i1 = - 1" unfolding if_not_P [OF n] by simp
    with assms r show False by simp
  qed
  from findOldestBuffer_char [OF r] obtain m' where m': "m' < length bs" "i1 = int (0 + m')"
    "refCount (bs ! m') = 0" "lastUsed (bs ! m') < 0xffffffffffffffff"
    "\<forall>j<length bs. refCount (bs ! j) = 0 \<longrightarrow> lastUsed (bs ! m') \<le> lastUsed (bs ! j)"
    "\<forall>j<m'. refCount (bs ! j) = 0 \<longrightarrow> lastUsed (bs ! m') < lastUsed (bs ! j)"
    unfolding if_P [OF e] by blast
  have "lruVictim bs m'" using m' by (auto simp: lruVictim_def)
  with m'(2,4) r show ?thesis by (auto simp: u64_less_max)
qed


section \<open>Buffer acquisition\<close>



lemma flag_fields:
  fixes w :: u32
  shows "vbuf (w OR SOUND_ACTIVE) = vbuf w" "vgen (w OR SOUND_ACTIVE) = vgen w"
    "vbuf (w OR SOUND_PLAYING) = vbuf w" "vgen (w OR SOUND_PLAYING) = vgen w"
    "vbuf (w OR SOUND_LOOPING) = vbuf w" "vgen (w OR SOUND_LOOPING) = vgen w"
    "vbuf (w OR SOUND_PAUSED) = vbuf w" "vgen (w OR SOUND_PAUSED) = vgen w"
    "vbuf (w AND NOT SOUND_ACTIVE) = vbuf w" "vgen (w AND NOT SOUND_ACTIVE) = vgen w"
    "vbuf (w AND NOT SOUND_PLAYING) = vbuf w" "vgen (w AND NOT SOUND_PLAYING) = vgen w"
    "vbuf (w AND NOT SOUND_LOOPING) = vbuf w" "vgen (w AND NOT SOUND_LOOPING) = vgen w"
    "vbuf (w AND NOT SOUND_PAUSED) = vbuf w" "vgen (w AND NOT SOUND_PAUSED) = vgen w"
  unfolding flag_consts by (rule set_flag_fields; simp)+

lemma flag_bits:
  fixes w :: u32
  shows "bit (w OR SOUND_ACTIVE) j = (j = 27 \<or> bit w j)"
    "bit (w OR SOUND_PLAYING) j = (j = 28 \<or> bit w j)"
    "bit (w OR SOUND_LOOPING) j = (j = 29 \<or> bit w j)"
    "bit (w OR SOUND_PAUSED) j = (j = 30 \<or> bit w j)"
    "bit (w AND NOT SOUND_ACTIVE) j = (j \<noteq> 27 \<and> bit w j)"
    "bit (w AND NOT SOUND_PLAYING) j = (j \<noteq> 28 \<and> bit w j)"
    "bit (w AND NOT SOUND_LOOPING) j = (j \<noteq> 29 \<and> bit w j)"
    "bit (w AND NOT SOUND_PAUSED) j = (j \<noteq> 30 \<and> bit w j)"
  unfolding flag_consts by (rule set_flag_bits; simp)+

lemma allocWord_fields:
  "vbuf (allocWord w b) = b AND 0xff" "vgen (allocWord w b) = ((vgen w + 1) AND 0x7ffff) AND 0x7ffff"
  "bit (allocWord w b) 27" "\<not> bit (allocWord w b) 28" "\<not> bit (allocWord w b) 29"
  "bit (allocWord w b) 30 = bit w 30"
proof -
  show "vbuf (allocWord w b) = b AND 0xff"
    unfolding allocWord_def by (simp only: flag_fields set_buf_fields set_gen_fields)
  show "vgen (allocWord w b) = ((vgen w + 1) AND 0x7ffff) AND 0x7ffff"
    unfolding allocWord_def by (simp only: flag_fields set_buf_fields set_gen_fields)
  have f: "\<And>x a. bit ((x AND NOT 0x07ffff00) OR push_bit 8 (a AND 0x7ffff)) 30 = bit (x :: u32) 30"
    "\<And>x a. bit ((x AND NOT 0xff) OR (a AND 0xff)) 30 = bit (x :: u32) 30"
    by (rule set_gen_flags, simp, rule set_buf_flags, simp)
  show "bit (allocWord w b) 27" "\<not> bit (allocWord w b) 28" "\<not> bit (allocWord w b) 29"
    unfolding allocWord_def by (simp_all only: flag_bits simp_thms)
  show "bit (allocWord w b) 30 = bit w 30"
    unfolding allocWord_def by (simp only: flag_bits f) simp
qed

lemma playWord_fields:
  "vbuf (playWord w lp) = vbuf w" "vgen (playWord w lp) = vgen w"
  "bit (playWord w lp) 27 = bit w 27" "bit (playWord w lp) 28"
  "bit (playWord w lp) 29 = (lp \<or> bit w 29)" "bit (playWord w lp) 30 = bit w 30"
  unfolding playWord_def
  by (simp_all add: flag_fields flag_bits)

lemma allocateSound_None:
  "findFreeSound (s_activeSounds s) 0 = None \<Longrightarrow> allocateSound ivh s bufferID = (ivh, s)"
  by (simp add: allocateSound_def)

lemma allocateSound_Some:
  assumes "findFreeSound (s_activeSounds s) 0 = Some v"
  shows "allocateSound ivh s bufferID =
     (makeHandle bufferID v ((vgen (s_activeSounds s ! v) + 1) AND 0x7ffff),
      s\<lparr>s_activeSounds := (s_activeSounds s)[v := allocWord (s_activeSounds s ! v) bufferID]\<rparr>)"
proof -
  from findFreeSound_Some [OF assms] have v: "v < length (s_activeSounds s)" by simp
  show ?thesis
    using assms v
    by (simp add: allocateSound_def Let_def setActiveBuffer_def setActiveAllocID_def
        clearActiveFlag_def setActiveFlag_def getActiveAllocID_def allocWord_def vgen_def)
qed

lemma playSoundInternal_eq:
  assumes "unat (getHandleSource h) < length (s_activeSounds s)"
  shows "playSoundInternal s h vol p loop False =
     (True,
      s\<lparr>al := (al s)(s_sources s ! unat (getHandleSource h) :=
             playSource (al s (s_sources s ! unat (getHandleSource h)))
               (oalBuffer (s_buffers s ! unat (getHandleBuffer h)))
               (min (vol * s_globalVolume s) 1) p loop),
        s_activeSounds := (s_activeSounds s)
          [unat (getHandleSource h) := playWord (s_activeSounds s ! unat (getHandleSource h)) loop],
        s_buffers := (s_buffers s)
          [unat (getHandleBuffer h) := (s_buffers s ! unat (getHandleBuffer h))
             \<lparr>lastUsed := s_currentFrame s,
              refCount := refCount (s_buffers s ! unat (getHandleBuffer h)) + 1\<rparr>]\<rparr>)"
  using assms
  by (simp add: playSoundInternal_def Let_def setActiveFlag_def playWord_def playSource_def
      al_play_def)



lemma playSound2D_null:
  "s_init s \<Longrightarrow> getSoundBuffer (Lock s) nm = (None, s2) \<Longrightarrow>
   playSound2D ivh s nm e info lp = (ivh, s2)"
  by (simp add: playSound2D_def Let_def)

lemma playSound2D_uploadError:
  "s_init s \<Longrightarrow> getSoundBuffer (Lock s) nm = (Some b, s2) \<Longrightarrow>
   allocateSound ivh s2 (index (s_buffers s2 ! b)) = (h, s3) \<Longrightarrow>
   flags (s_buffers s3 ! b) AND BUFFER_ACTIVE = 0 \<Longrightarrow>
   playSound2D ivh s nm True info lp = (0, Unlock s3)"
  by (simp add: playSound2D_def Let_def)

lemma playSound2D_play:
  "s_init s \<Longrightarrow> getSoundBuffer (Lock s) nm = (Some b, s2) \<Longrightarrow>
   allocateSound ivh s2 (index (s_buffers s2 ! b)) = (h, s3) \<Longrightarrow>
   \<not> (flags (s_buffers s3 ! b) AND BUFFER_ACTIVE = 0 \<and> e) \<Longrightarrow>
   playSoundInternal (markLoaded s3 b) h (volume info) (pan info) lp False = (True, s5) \<Longrightarrow>
   playSound2D ivh s nm e info lp =
     (h, Unlock (s5\<lparr>s_userValue := (s_userValue s5)[unat (getHandleSource h) := userValue info]\<rparr>))"
  by (auto simp add: playSound2D_def Let_def markLoaded_def)

lemma init_fields:
  "s_init (init gb gs)" "s_bufferMap (init gb gs) = Map.empty"
  "s_activeSounds (init gb gs) = replicate 32 0" "s_userValue (init gb gs) = replicate 32 0"
  "length (s_buffers (init gb gs)) = 256" "s_sources (init gb gs) = take 32 gs"
  "s_mutex (init gb gs) = 0" "s_callback (init gb gs) = False"
  "s_currentFrame (init gb gs) = 1" "s_globalVolume (init gb gs) = 0.8"
  "al (init gb gs) = (\<lambda>_. al_fresh)" "callbackLog (init gb gs) = []"
  by (simp_all add: init_def s_numBuffers_def s_maxSimulSounds_def)

lemma init_buffer:
  "i < 256 \<Longrightarrow> s_buffers (init gb gs) ! i =
     \<lparr>name = [], flags = 0, index = of_nat i, refCount = 0, lastUsed = 0, oalBuffer = gb ! i\<rparr>"
  by (simp add: init_def s_numBuffers_def)

lemma findFreeSound_zeros: "0 < n \<Longrightarrow> findFreeSound (replicate n 0) 0 = Some 0"
  by (rule findFreeSound_first) (simp_all add: busy_def)

lemma findFreeBuffer_init: "findFreeBuffer (s_buffers (init gb gs)) 0 = Some 0"
  by (rule findFreeBuffer_first) (simp_all add: init_fields init_buffer)

text \<open>A play call on the state init leaves, when the upload of the data fails.\<close>

lemma play_fail_st0:
  "playSound2D ivh (init gb gs) nm True info lp =
     (0, (init gb gs)\<lparr>s_buffers := (s_buffers (init gb gs))
                        [0 := (s_buffers (init gb gs) ! 0)\<lparr>name := nm\<rparr>],
                     s_bufferMap := [nm \<mapsto> 0],
                     s_activeSounds := (replicate 32 0)[0 := allocWord 0 0]\<rparr>)"
proof -
  let ?s = "init gb gs"
  let ?s2 = "(Lock ?s)\<lparr>s_buffers := (s_buffers ?s)[0 := (s_buffers ?s ! 0)\<lparr>name := nm\<rparr>],
                s_bufferMap := [nm \<mapsto> 0]\<rparr>"
  let ?s3 = "?s2\<lparr>s_activeSounds := (replicate 32 0)[0 := allocWord 0 0]\<rparr>"
  have g: "getSoundBuffer (Lock ?s) nm = (Some 0, ?s2)"
    using getSoundBuffer_free [of "Lock ?s" nm 0]
    by (simp add: init_fields findFreeBuffer_init)
  have a: "allocateSound ivh ?s2 (index (s_buffers ?s2 ! 0)) = (makeHandle 0 0 ((vgen 0 + 1) AND 0x7ffff), ?s3)"
    using allocateSound_Some [of ?s2 0 ivh 0]
    by (simp add: init_fields init_buffer findFreeSound_zeros)
  have c: "flags (s_buffers ?s3 ! 0) AND BUFFER_ACTIVE = 0"
    by (simp add: init_fields init_buffer)
  have "playSound2D ivh ?s nm True info lp = (0, Unlock ?s3)"
    using playSound2D_uploadError [OF init_fields(1) g a c] .
  moreover have "Unlock ?s3 = ?s\<lparr>s_buffers := (s_buffers ?s)[0 := (s_buffers ?s ! 0)\<lparr>name := nm\<rparr>],
                     s_bufferMap := [nm \<mapsto> 0],
                     s_activeSounds := (replicate 32 0)[0 := allocWord 0 0]\<rparr>"
    by (simp add: Lock_def Unlock_def)
  ultimately show ?thesis by simp
qed


section \<open>A failed upload\<close>

text \<open>Claim C4, on the code. From the initial state, a play call whose upload fails
  returns the handle 0 (the \<open>false\<close> of the source), not INVALID_SOUND_HANDLE, and it
  leaves slot 0 named and entered in the index, and the voice it allocated ACTIVE:
  nothing of the acquisition is rolled back.\<close>

theorem upload_failure_not_rolled_back:
  "s_bufferMap st0 ''a'' = None \<and> name (s_buffers st0 ! 0) = []
   \<and> \<not> checkActiveFlag st0 0 SOUND_ACTIVE
   \<and> fst (playSound2D 0xffffffff st0 ''a'' True info0 False) = 0
   \<and> name (s_buffers (snd (playSound2D 0xffffffff st0 ''a'' True info0 False)) ! 0) = ''a''
   \<and> s_bufferMap (snd (playSound2D 0xffffffff st0 ''a'' True info0 False)) ''a'' = Some 0
   \<and> flags (s_buffers (snd (playSound2D 0xffffffff st0 ''a'' True info0 False)) ! 0) AND BUFFER_ACTIVE = 0
   \<and> checkActiveFlag (snd (playSound2D 0xffffffff st0 ''a'' True info0 False)) 0 SOUND_ACTIVE"
  unfolding st0_def play_fail_st0
  by (simp add: init_fields init_buffer checkActiveFlag_def flag_bit allocWord_fields)

section \<open>Handles that are not live\<close>


section \<open>Counting the voices bound to a buffer\<close>

lemma filter_update_length:
  "v < length ws \<Longrightarrow>
   int (length (filter P (ws[v := w']))) =
     int (length (filter P ws)) - (if P (ws ! v) then 1 else 0) + (if P w' then 1 else 0)"
proof (induction ws arbitrary: v)
  case Nil
  then show ?case by simp
next
  case (Cons w ws)
  show ?case
  proof (cases v)
    case 0
    then show ?thesis by simp
  next
    case (Suc u)
    with Cons.prems have "u < length ws" by simp
    from Cons.IH [OF this] Suc show ?thesis by (auto split: if_splits)
  qed
qed

lemma busyCount_update:
  "v < length ws \<Longrightarrow>
   busyCount (ws[v := w']) b =
     busyCount ws b - (if busy (ws ! v) \<and> unat (vbuf (ws ! v)) = b then 1 else 0)
       + (if busy w' \<and> unat (vbuf w') = b then 1 else 0)"
  unfolding busyCount_def by (rule filter_update_length)

lemma busyCount_nonneg: "0 \<le> busyCount ws b"
  by (simp add: busyCount_def)

lemma busyCount_pos:
  assumes "v < length ws" and "busy (ws ! v)"
  shows "1 \<le> busyCount ws (unat (vbuf (ws ! v)))"
proof -
  have "ws ! v \<in> set (filter (\<lambda>w. busy w \<and> unat (vbuf w) = unat (vbuf (ws ! v))) ws)"
    using assms by simp
  then have "0 < length (filter (\<lambda>w. busy w \<and> unat (vbuf w) = unat (vbuf (ws ! v))) ws)"
    by (rule length_pos_if_in_set)
  then have "1 \<le> length (filter (\<lambda>w. busy w \<and> unat (vbuf w) = unat (vbuf (ws ! v))) ws)"
    by linarith
  then show ?thesis unfolding busyCount_def by linarith
qed

lemma busyCount_idle:
  assumes "\<forall>v<length ws. \<not> busy (ws ! v)"
  shows "busyCount ws b = 0"
proof -
  have "filter (\<lambda>w. busy w \<and> unat (vbuf w) = b) ws = []"
    using assms by (auto simp: filter_empty_conv in_set_conv_nth)
  then show ?thesis by (simp add: busyCount_def)
qed

section \<open>Loops\<close>

lemma fold_inv:
  assumes "\<And>x st. x \<in> set xs \<Longrightarrow> P st \<Longrightarrow> P (f x st)" and "P s"
  shows "P (fold f xs s)"
  using assms by (induction xs arbitrary: s) auto

lemma fold_upt_inv:
  assumes "P 0 s" and "\<And>i st. i < n \<Longrightarrow> P i st \<Longrightarrow> P (Suc i) (f i st)"
  shows "P n (fold f [0..<n] s)"
  using assms
proof (induction n)
  case 0
  then show ?case by simp
next
  case (Suc n)
  have "P n (fold f [0..<n] s)"
    using Suc.prems by (intro Suc.IH) auto
  then have "P (Suc n) (f n (fold f [0..<n] s))"
    by (intro Suc.prems(2)) auto
  then show ?case by simp
qed

section \<open>The invariant is kept\<close>

lemma soundInv_cong:
  assumes "s_activeSounds s' = s_activeSounds s" "s_buffers s' = s_buffers s"
    "s_sources s' = s_sources s" "s_bufferMap s' = s_bufferMap s" "al s' = al s"
  shows "soundInv s' = soundInv s"
  by (simp add: soundInv_def assms)

lemma soundInv_Lock [simp]: "soundInv (Lock s) = soundInv s"
  by (rule soundInv_cong) simp_all

lemma soundInv_Unlock [simp]: "soundInv (Unlock s) = soundInv s"
  by (rule soundInv_cong) simp_all

text \<open>A step that rewrites the word of one voice, touches the source of that voice only
  and keeps every refCount at or above the new count of voices in use keeps the
  invariant.\<close>

lemma soundInv_step:
  assumes inv: "soundInv s" and v: "v < 32"
    and src: "s_sources s' = s_sources s"
    and ws: "s_activeSounds s' = (s_activeSounds s)[v := w']"
    and alo: "\<And>n. n \<noteq> s_sources s ! v \<Longrightarrow> src_state (al s' n) = src_state (al s n)"
    and alv: "bit w' 28 \<Longrightarrow> src_state (al s' (s_sources s ! v)) \<noteq> AL_PAUSED"
    and len: "length (s_buffers s') = 256"
    and idx: "\<And>c. c < 256 \<Longrightarrow> index (s_buffers s' ! c) = index (s_buffers s ! c)"
    and mp: "\<And>nm i. s_bufferMap s' nm = Some i \<Longrightarrow> unat i < 256"
    and cnt: "\<And>c. c < 256 \<Longrightarrow>
                busyCount ((s_activeSounds s)[v := w']) c \<le> refCount (s_buffers s' ! c)"
  shows "soundInv s'"
proof -
  from inv have l: "length (s_activeSounds s) = 32" "length (s_sources s) = 32"
    "distinct (s_sources s)"
    and i2: "\<And>u. u < 32 \<Longrightarrow> bit (s_activeSounds s ! u) 28
              \<Longrightarrow> src_state (al s (s_sources s ! u)) \<noteq> AL_PAUSED"
    and ix: "\<And>c. c < 256 \<Longrightarrow> index (s_buffers s ! c) = of_nat c"
    by (auto simp: soundInv_def)
  have p: "src_state (al s' (s_sources s' ! u)) \<noteq> AL_PAUSED"
    if u: "u < 32" and b: "bit (s_activeSounds s' ! u) 28" for u
  proof (cases "u = v")
    case True
    with b ws l v have "bit w' 28" by simp
    from alv [OF this] True src show ?thesis by simp
  next
    case False
    with l u v have "s_sources s ! u \<noteq> s_sources s ! v"
      by (simp add: nth_eq_iff_index_eq)
    from alo [OF this] have e: "src_state (al s' (s_sources s ! u)) = src_state (al s (s_sources s ! u))" .
    from b ws False have "bit (s_activeSounds s ! u) 28" by simp
    from i2 [OF u this] e src show ?thesis by simp
  qed
  show ?thesis
    unfolding soundInv_def
  proof (intro conjI allI impI)
    show "length (s_activeSounds s') = 32" using ws l by simp
    show "length (s_buffers s') = 256" by (rule len)
    show "length (s_sources s') = 32" using src l by simp
    show "distinct (s_sources s')" using src l by simp
  next
    fix b :: nat assume "b < 256"
    then show "index (s_buffers s' ! b) = of_nat b" using idx ix by simp
  next
    fix nm i assume "s_bufferMap s' nm = Some i"
    then show "unat i < 256" by (rule mp)
  next
    fix u :: nat assume "u < 32" "bit (s_activeSounds s' ! u) 28"
    then show "src_state (al s' (s_sources s' ! u)) \<noteq> AL_PAUSED" by (rule p)
  next
    fix b :: nat assume "b < 256"
    then show "busyCount (s_activeSounds s') b \<le> refCount (s_buffers s' ! b)"
      using cnt ws by simp
  qed
qed

lemma nth_list_update_cases:
  "(xs[i := x]) ! j = (if i = j \<and> i < length xs then x else xs ! j)"
  by (cases "i < length xs") (auto simp: nth_list_update list_update_beyond)

lemma soundInv_lens:
  "soundInv s \<Longrightarrow> length (s_activeSounds s) = 32"
  "soundInv s \<Longrightarrow> length (s_buffers s) = 256"
  "soundInv s \<Longrightarrow> length (s_sources s) = 32"
  by (simp_all add: soundInv_def)

lemma soundInv_counts:
  "soundInv s \<Longrightarrow> c < 256 \<Longrightarrow> busyCount (s_activeSounds s) c \<le> refCount (s_buffers s ! c)"
  by (simp add: soundInv_def)

lemma soundInv_not_paused:
  "soundInv s \<Longrightarrow> v < 32 \<Longrightarrow> bit (s_activeSounds s ! v) 28
   \<Longrightarrow> src_state (al s (s_sources s ! v)) \<noteq> AL_PAUSED"
  by (simp add: soundInv_def)

text \<open>A step that changes no voice word, pauses no source and lowers no refCount keeps
  the invariant.\<close>

lemma soundInv_mono:
  assumes inv: "soundInv s"
    and ws: "s_activeSounds s' = s_activeSounds s"
    and src: "s_sources s' = s_sources s"
    and als: "\<And>n. src_state (al s' n) = AL_PAUSED \<Longrightarrow> src_state (al s n) = AL_PAUSED"
    and len: "length (s_buffers s') = 256"
    and idx: "\<And>c. c < 256 \<Longrightarrow> index (s_buffers s' ! c) = index (s_buffers s ! c)"
    and rc: "\<And>c. c < 256 \<Longrightarrow> refCount (s_buffers s ! c) \<le> refCount (s_buffers s' ! c)"
    and mp: "\<And>nm i. s_bufferMap s' nm = Some i \<Longrightarrow> unat i < 256"
  shows "soundInv s'"
  unfolding soundInv_def
proof (intro conjI allI impI)
  show "length (s_activeSounds s') = 32" using ws inv by (simp add: soundInv_lens)
  show "length (s_buffers s') = 256" by (rule len)
  show "length (s_sources s') = 32" using src inv by (simp add: soundInv_lens)
  show "distinct (s_sources s')" using src inv by (simp add: soundInv_def)
next
  fix b :: nat assume "b < 256"
  then show "index (s_buffers s' ! b) = of_nat b" using idx inv by (simp add: soundInv_def)
next
  fix nm i assume "s_bufferMap s' nm = Some i"
  then show "unat i < 256" by (rule mp)
next
  fix u :: nat assume u: "u < 32" "bit (s_activeSounds s' ! u) 28"
  then have "src_state (al s (s_sources s ! u)) \<noteq> AL_PAUSED"
    using inv ws by (simp add: soundInv_not_paused)
  with als show "src_state (al s' (s_sources s' ! u)) \<noteq> AL_PAUSED"
    unfolding src by blast
next
  fix b :: nat assume b: "b < 256"
  from soundInv_counts [OF inv b] rc [OF b]
  show "busyCount (s_activeSounds s') b \<le> refCount (s_buffers s' ! b)"
    unfolding ws by linarith
qed

section \<open>The handle-taking operations\<close>


lemma checkActiveFlag_bit:
  "checkActiveFlag s v SOUND_ACTIVE = bit (s_activeSounds s ! v) 27"
  "checkActiveFlag s v SOUND_PLAYING = bit (s_activeSounds s ! v) 28"
  "checkActiveFlag s v SOUND_LOOPING = bit (s_activeSounds s ! v) 29"
  "checkActiveFlag s v SOUND_PAUSED = bit (s_activeSounds s ! v) 30"
  by (simp_all add: checkActiveFlag_def flag_bit)

lemma isActiveNoLock_mutex [simp]:
  "isActiveNoLock ivh (s\<lparr>s_mutex := m\<rparr>) h = isActiveNoLock ivh s h"
  by (simp add: isActiveNoLock_iff)











section \<open>The loop of update\<close>

lemma updateSound_fields:
  assumes "v < length (s_activeSounds s)"
  shows "s_activeSounds (updateSound s v) =
           (s_activeSounds s)[v := updateWord (src_state (al s (s_sources s ! v))) (s_activeSounds s ! v)]"
    and "callbackLog (updateSound s v) =
           callbackLog s @ (if s_callback s \<and> finishes s v then [s_userValue s ! v] else [])"
    and "s_buffers (updateSound s v) =
           (if s_callback s \<and> finishes s v
            then (s_buffers s)[unat (vbuf (s_activeSounds s ! v)) :=
                   (s_buffers s ! unat (vbuf (s_activeSounds s ! v)))
                     \<lparr>refCount := refCount (s_buffers s ! unat (vbuf (s_activeSounds s ! v))) - 1\<rparr>]
            else s_buffers s)"
    and "al (updateSound s v) = al s" and "s_sources (updateSound s v) = s_sources s"
    and "s_userValue (updateSound s v) = s_userValue s"
    and "s_callback (updateSound s v) = s_callback s"
    and "s_bufferMap (updateSound s v) = s_bufferMap s"
    and "s_currentFrame (updateSound s v) = s_currentFrame s"
    and "s_mutex (updateSound s v) = s_mutex s" and "s_init (updateSound s v) = s_init s"
    and "s_globalVolume (updateSound s v) = s_globalVolume s"
  using assms
  by (auto simp: updateSound_def Let_def checkActiveFlag_bit clearActiveFlag_def
      getActiveBuffer_def vbuf_def updateWord_def finishes_def)

lemma soundInv_updateSound:
  assumes inv: "soundInv s" and v: "v < 32"
  shows "soundInv (updateSound s v)"
proof -
  let ?w = "s_activeSounds s ! v"
  let ?st = "src_state (al s (s_sources s ! v))"
  let ?w' = "updateWord ?st ?w"
  let ?b = "unat (vbuf ?w)"
  have vl: "v < length (s_activeSounds s)" using v inv by (simp add: soundInv_lens)
  note f = updateSound_fields [OF vl]
  have np: "bit ?w 28 \<Longrightarrow> ?st \<noteq> AL_PAUSED"
    using soundInv_not_paused [OF inv v] by simp
  have vb: "vbuf ?w' = vbuf ?w" by (simp add: updateWord_def flag_fields)
  have bz: "busy ?w' = (busy ?w \<and> \<not> finishes s v)"
    using np by (auto simp: updateWord_def busy_def flag_bits finishes_def checkActiveFlag_bit)
  have fb: "finishes s v \<Longrightarrow> busy ?w"
    by (simp add: finishes_def checkActiveFlag_bit busy_def)
  show ?thesis
  proof (rule soundInv_step [OF inv v, where w' = ?w'])
    show "s_sources (updateSound s v) = s_sources s" by (rule f)
    show "s_activeSounds (updateSound s v) = (s_activeSounds s)[v := ?w']" by (rule f)
    show "src_state (al (updateSound s v) n) = src_state (al s n)" for n by (simp add: f)
    show "src_state (al (updateSound s v) (s_sources s ! v)) \<noteq> AL_PAUSED" if "bit ?w' 28"
      using that np by (auto simp: f(4) updateWord_def flag_bits split: if_splits)
    show "length (s_buffers (updateSound s v)) = 256" using inv by (simp add: f soundInv_lens)
    show "index (s_buffers (updateSound s v) ! c) = index (s_buffers s ! c)" if "c < 256" for c
      by (simp add: f nth_list_update_cases)
    show "unat i < 256" if "s_bufferMap (updateSound s v) nm = Some i" for nm i
      using that inv by (simp add: f soundInv_def)
    show "busyCount ((s_activeSounds s)[v := ?w']) c \<le> refCount (s_buffers (updateSound s v) ! c)"
      if c: "c < 256" for c
    proof -
      have "busyCount ((s_activeSounds s)[v := ?w']) c
             = busyCount (s_activeSounds s) c - (if finishes s v \<and> c = ?b then 1 else 0)"
        using bz vb fb by (auto simp: busyCount_update [OF vl])
      moreover have "refCount (s_buffers s ! c) - (if finishes s v \<and> c = ?b then 1 else 0)
             \<le> refCount (s_buffers (updateSound s v) ! c)"
        by (simp add: f nth_list_update_cases)
      ultimately show ?thesis using soundInv_counts [OF inv c] by linarith
    qed
  qed
qed

lemma soundInv_update:
  assumes "soundInv s"
  shows "soundInv (update s)"
proof -
  have "soundInv (fold (\<lambda>sid st. updateSound st sid) [0..<s_maxSimulSounds] (Lock s))"
    by (rule fold_inv) (use assms in \<open>auto simp: s_maxSimulSounds_def intro: soundInv_updateSound\<close>)
  then have "soundInv ((fold (\<lambda>sid st. updateSound st sid) [0..<s_maxSimulSounds] (Lock s))
        \<lparr>s_currentFrame := s_currentFrame (fold (\<lambda>sid st. updateSound st sid) [0..<s_maxSimulSounds] (Lock s)) + 1\<rparr>)"
    by (subst soundInv_cong) simp_all
  with assms show ?thesis by (simp add: update_def Let_def)
qed

section \<open>setGlobalVolume, setCallback and the end of a sound\<close>

lemma soundInv_map:
  "soundInv s \<Longrightarrow> s_bufferMap s nm = Some i \<Longrightarrow> unat i < 256"
  by (simp add: soundInv_def)

lemma soundInv_al:
  assumes inv: "soundInv s"
    and e: "s_activeSounds s' = s_activeSounds s" "s_sources s' = s_sources s"
      "s_buffers s' = s_buffers s" "s_bufferMap s' = s_bufferMap s"
    and als: "\<And>n. src_state (al s' n) = AL_PAUSED \<Longrightarrow> src_state (al s n) = AL_PAUSED"
  shows "soundInv s'"
proof (rule soundInv_mono [OF inv e(1) e(2) als])
  show "length (s_buffers s') = 256" using inv by (simp add: e soundInv_lens)
  show "index (s_buffers s' ! c) = index (s_buffers s ! c)" for c by (simp add: e)
  show "refCount (s_buffers s ! c) \<le> refCount (s_buffers s' ! c)" for c by (simp add: e)
  show "unat i < 256" if "s_bufferMap s' nm = Some i" for nm i
    using that inv by (simp add: e soundInv_map)
qed





lemma soundInv_sourceFinished:
  assumes "soundInv s"
  shows "soundInv (sourceFinished s src)"
proof (rule soundInv_al [OF assms])
  show "src_state (al s n) = AL_PAUSED"
    if "src_state (al (sourceFinished s src) n) = AL_PAUSED" for n
    using that by (simp add: sourceFinished_def al_finish_def split: if_splits)
qed (simp_all add: sourceFinished_def)

section \<open>reset and stopAllSounds\<close>

lemma soundInv_idle_voice:
  assumes inv: "soundInv s" and v: "v < 32" and nb: "\<not> busy w'"
    and src: "s_sources s' = s_sources s"
    and ws: "s_activeSounds s' = (s_activeSounds s)[v := w']"
    and alo: "\<And>n. n \<noteq> s_sources s ! v \<Longrightarrow> src_state (al s' n) = src_state (al s n)"
    and bs: "s_buffers s' = s_buffers s" and mp: "s_bufferMap s' = s_bufferMap s"
  shows "soundInv s'"
proof (rule soundInv_step [OF inv v src ws alo])
  show "src_state (al s' (s_sources s ! v)) \<noteq> AL_PAUSED" if "bit w' 28"
    using that nb by (simp add: busy_def)
  show "length (s_buffers s') = 256" using inv by (simp add: bs soundInv_lens)
  show "index (s_buffers s' ! c) = index (s_buffers s ! c)" for c by (simp add: bs)
  show "unat i < 256" if "s_bufferMap s' nm = Some i" for nm i
    using that inv by (simp add: mp soundInv_def)
  show "busyCount ((s_activeSounds s)[v := w']) c \<le> refCount (s_buffers s' ! c)" if c: "c < 256" for c
  proof -
    have vl: "v < length (s_activeSounds s)" using v inv by (simp add: soundInv_lens)
    have "busyCount ((s_activeSounds s)[v := w']) c \<le> busyCount (s_activeSounds s) c"
      using nb by (simp add: busyCount_update [OF vl])
    with soundInv_counts [OF inv c] show ?thesis by (simp add: bs)
  qed
qed






section \<open>playSound2D keeps the invariant\<close>

lemma unat_of_nat_small: "i < 256 \<Longrightarrow> unat (of_nat i :: u32) = i"
  by (simp add: unat_of_nat)

lemma of_nat_small: "i < 256 \<Longrightarrow> (of_nat i :: u32) < 256"
  by (simp add: word_less_nat_alt unat_of_nat)

lemma gen_small: "(x AND 0x7ffff :: u32) < 2 ^ 19"
  using and_mask_less' [of 19 x] by (simp add: mask_consts)

lemma soundInv_buffers:
  assumes inv: "soundInv s"
    and e: "s_activeSounds s' = s_activeSounds s" "s_sources s' = s_sources s" "al s' = al s"
    and len: "length (s_buffers s') = 256"
    and idx: "\<And>c. c < 256 \<Longrightarrow> index (s_buffers s' ! c) = index (s_buffers s ! c)"
    and rc: "\<And>c. c < 256 \<Longrightarrow> refCount (s_buffers s ! c) \<le> refCount (s_buffers s' ! c)"
    and mp: "\<And>nm i. s_bufferMap s' nm = Some i \<Longrightarrow> unat i < 256"
  shows "soundInv s'"
  by (rule soundInv_mono [OF inv e(1) e(2) _ len idx rc mp]) (simp_all add: e)

lemma getSoundBuffer_inv:
  assumes inv: "soundInv s" and g: "getSoundBuffer s nm = (r, s2)"
  shows "soundInv s2 \<and> (\<forall>b. r = Some b \<longrightarrow> b < 256)"
proof (cases "s_bufferMap s nm")
  case (Some i)
  from getSoundBuffer_hit [OF Some] g have "r = Some (unat i)" "s2 = s" by simp_all
  with inv soundInv_map [OF inv Some] show ?thesis by simp
next
  case None
  show ?thesis
  proof (cases "findFreeBuffer (s_buffers s) 0")
    case (Some i)
    from findFreeBuffer_Some [OF Some] inv have i: "i < 256" by (simp add: soundInv_lens)
    from getSoundBuffer_free [OF None Some] g have r: "r = Some i"
      and s2: "s2 = s\<lparr>s_buffers := (s_buffers s)[i := (s_buffers s ! i)\<lparr>name := nm\<rparr>],
                      s_bufferMap := (s_bufferMap s)(nm \<mapsto> of_nat i)\<rparr>" by simp_all
    have "soundInv s2"
    proof (rule soundInv_buffers [OF inv])
      show "unat j < 256" if "s_bufferMap s2 nm' = Some j" for nm' j
        using that i soundInv_map [OF inv, of nm' j]
        by (auto simp: s2 unat_of_nat_small split: if_splits)
    qed (use inv in \<open>simp_all add: s2 nth_list_update_cases soundInv_lens\<close>)
    with r i show ?thesis by simp
  next
    case nf: None
    show ?thesis
    proof (cases "0 \<le> snd (findOldestBuffer (s_buffers s) 0 0xffffffffffffffff (- 1))")
      case False
      then have "snd (findOldestBuffer (s_buffers s) 0 0xffffffffffffffff (- 1)) < 0" by simp
      with None nf g have "r = None" "s2 = s" by (simp_all add: getSoundBuffer_def Let_def)
      with inv show ?thesis by simp
    next
      case True
      from findOldestBuffer_victim [OF True] obtain m where
        m: "snd (findOldestBuffer (s_buffers s) 0 0xffffffffffffffff (- 1)) = int m"
        "lruVictim (s_buffers s) m" by blast
      from m(2) inv have ml: "m < 256" and z: "refCount (s_buffers s ! m) = 0"
        by (simp_all add: lruVictim_def soundInv_lens)
      from getSoundBuffer_evict [OF None nf m(1)] g have r: "r = Some m"
        and s2: "s2 = s\<lparr>s_buffers := (s_buffers s)
                   [m := (s_buffers s ! m)\<lparr>refCount := 0, flags := 0, name := nm\<rparr>],
                s_bufferMap := ((s_bufferMap s)(name (s_buffers s ! m) := None))(nm \<mapsto> of_nat m)\<rparr>"
        by simp_all
      have "soundInv s2"
      proof (rule soundInv_buffers [OF inv])
        show "unat j < 256" if "s_bufferMap s2 nm' = Some j" for nm' j
          using that ml soundInv_map [OF inv, of nm' j]
          by (auto simp: s2 unat_of_nat_small split: if_splits)
        show "refCount (s_buffers s ! c) \<le> refCount (s_buffers s2 ! c)" for c
          using z by (auto simp: s2 nth_list_update_cases)
      qed (use inv in \<open>simp_all add: s2 nth_list_update_cases soundInv_lens\<close>)
      with r ml show ?thesis by simp
    qed
  qed
qed

lemma allocateSound_inv:
  assumes inv: "soundInv s"
  shows "soundInv (snd (allocateSound ivh s bufferID))"
proof (cases "findFreeSound (s_activeSounds s) 0")
  case None
  with inv show ?thesis by (simp add: allocateSound_None)
next
  case (Some v)
  from findFreeSound_Some [OF Some] inv have v: "v < 32" and nb: "\<not> busy (s_activeSounds s ! v)"
    by (simp_all add: soundInv_lens)
  let ?w' = "allocWord (s_activeSounds s ! v) bufferID"
  have nb': "\<not> busy ?w'" using nb by (simp add: busy_def allocWord_fields)
  show ?thesis
    unfolding allocateSound_Some [OF Some] snd_conv
    by (rule soundInv_idle_voice [OF inv v nb']) simp_all
qed

lemma markLoaded_inv:
  assumes inv: "soundInv s"
  shows "soundInv (markLoaded s b)"
proof (rule soundInv_buffers [OF inv])
  show "unat i < 256" if "s_bufferMap (markLoaded s b) nm = Some i" for nm i
    using that soundInv_map [OF inv, of nm i] by (simp add: markLoaded_def split: if_splits)
qed (use inv in \<open>simp_all add: markLoaded_def nth_list_update_cases soundInv_lens\<close>)

lemma playSoundInternal_inv:
  assumes inv: "soundInv s"
    and pre: "busy (s_activeSounds s ! unat (getHandleSource h))
              \<or> unat (vbuf (s_activeSounds s ! unat (getHandleSource h))) = unat (getHandleBuffer h)"
  shows "soundInv (snd (playSoundInternal s h vol p lp False))"
proof -
  let ?v = "unat (getHandleSource h)"
  let ?b = "unat (getHandleBuffer h)"
  let ?w = "s_activeSounds s ! ?v"
  let ?s' = "snd (playSoundInternal s h vol p lp False)"
  have v: "?v < 32" by (rule getHandleSource_lt)
  have vl: "?v < length (s_activeSounds s)" using v inv by (simp add: soundInv_lens)
  note e = playSoundInternal_eq [OF vl, of vol p lp]
  show ?thesis
  proof (rule soundInv_step [OF inv v, where w' = "playWord ?w lp"])
    show "s_sources ?s' = s_sources s" by (simp add: e)
    show "s_activeSounds ?s' = (s_activeSounds s)[?v := playWord ?w lp]" by (simp add: e)
    show "src_state (al ?s' n) = src_state (al s n)" if "n \<noteq> s_sources s ! ?v" for n
      using that by (simp add: e)
    show "src_state (al ?s' (s_sources s ! ?v)) \<noteq> AL_PAUSED"
      by (simp add: e playSource_def)
    show "length (s_buffers ?s') = 256" using inv by (simp add: e soundInv_lens)
    show "index (s_buffers ?s' ! c) = index (s_buffers s ! c)" for c
      by (simp add: e nth_list_update_cases)
    show "unat i < 256" if "s_bufferMap ?s' nm = Some i" for nm i
      using that inv by (simp add: e soundInv_map)
    show "busyCount ((s_activeSounds s)[?v := playWord ?w lp]) c \<le> refCount (s_buffers ?s' ! c)"
      if c: "c < 256" for c
    proof -
      have bz: "busy (playWord ?w lp)" by (simp add: busy_def playWord_fields)
      have "busyCount ((s_activeSounds s)[?v := playWord ?w lp]) c
             \<le> busyCount (s_activeSounds s) c + (if c = ?b then 1 else 0)"
        using pre bz by (auto simp: busyCount_update [OF vl] playWord_fields)
      moreover have "refCount (s_buffers ?s' ! c) = refCount (s_buffers s ! c) + (if c = ?b then 1 else 0)"
        using c inv by (simp add: e nth_list_update_cases soundInv_lens getHandleBuffer_lt)
      ultimately show ?thesis using soundInv_counts [OF inv c] by linarith
    qed
  qed
qed

lemma allocateSound_handle:
  assumes inv: "soundInv s" and b: "b < 256"
    and a: "allocateSound ivh s (of_nat b) = (h, s3)"
  shows "busy (s_activeSounds s3 ! unat (getHandleSource h))
         \<or> unat (vbuf (s_activeSounds s3 ! unat (getHandleSource h))) = unat (getHandleBuffer h)"
proof (cases "findFreeSound (s_activeSounds s) 0")
  case None
  with a have s3: "s3 = s" by (simp add: allocateSound_None)
  have "unat (getHandleSource h) < length (s_activeSounds s)"
    using getHandleSource_lt [of h] inv by (simp add: soundInv_lens)
  then have "s_activeSounds s ! unat (getHandleSource h) \<in> set (s_activeSounds s)" by simp
  with None show ?thesis unfolding s3 findFreeSound_None by blast
next
  case (Some v)
  from findFreeSound_Some [OF Some] inv have v: "v < 32" by (simp add: soundInv_lens)
  let ?g = "(vgen (s_activeSounds s ! v) + 1) AND 0x7ffff"
  from a have h: "h = makeHandle (of_nat b) v ?g"
    and s3: "s3 = s\<lparr>s_activeSounds := (s_activeSounds s)[v := allocWord (s_activeSounds s ! v) (of_nat b)]\<rparr>"
    by (simp_all add: allocateSound_Some [OF Some])
  note d = decode_makeHandle [OF of_nat_small [OF b] v gen_small, of "vgen (s_activeSounds s ! v) + 1"]
  have m: "(of_nat b :: u32) AND 0xff = of_nat b"
    using less_mask_eq [of "of_nat b :: u32" 8] of_nat_small [OF b] by (simp add: mask_consts)
  have "unat (vbuf (s_activeSounds s3 ! unat (getHandleSource h))) = unat (getHandleBuffer h)"
    using v inv by (simp add: h d s3 soundInv_lens allocWord_fields m)
  then show ?thesis ..
qed

lemma soundInv_playSound2D:
  assumes inv: "soundInv s"
  shows "soundInv (snd (playSound2D ivh s nm e info lp))"
proof (cases "s_init s")
  case False
  with inv show ?thesis by (simp add: playSound2D_def)
next
  case True
  obtain r s2 where g: "getSoundBuffer (Lock s) nm = (r, s2)"
    by (cases "getSoundBuffer (Lock s) nm") auto
  from getSoundBuffer_inv [OF _ g] inv have i2: "soundInv s2" and rb: "\<And>b. r = Some b \<Longrightarrow> b < 256"
    by simp_all
  show ?thesis
  proof (cases r)
    case None
    with playSound2D_null [OF True] g i2 show ?thesis by simp
  next
    case (Some b)
    from rb [OF Some] have b: "b < 256" .
    have ix: "index (s_buffers s2 ! b) = of_nat b" using i2 b by (simp add: soundInv_def)
    obtain h s3 where a: "allocateSound ivh s2 (index (s_buffers s2 ! b)) = (h, s3)"
      by (cases "allocateSound ivh s2 (index (s_buffers s2 ! b))") auto
    from allocateSound_inv [OF i2, of ivh "index (s_buffers s2 ! b)"] a have i3: "soundInv s3"
      by simp
    show ?thesis
    proof (cases "flags (s_buffers s3 ! b) AND BUFFER_ACTIVE = 0 \<and> e")
      case ue: True
      from g Some have g': "getSoundBuffer (Lock s) nm = (Some b, s2)" by simp
      from ue playSound2D_uploadError [OF True g' a] i3 show ?thesis by simp
    next
      case ok: False
      from g Some have g': "getSoundBuffer (Lock s) nm = (Some b, s2)" by simp
      let ?s4 = "markLoaded s3 b"
      have i4: "soundInv ?s4" by (rule markLoaded_inv [OF i3])
      have ws4: "s_activeSounds ?s4 = s_activeSounds s3" by (simp add: markLoaded_def)
      from allocateSound_handle [OF i2 b] a ix
      have pre: "busy (s_activeSounds ?s4 ! unat (getHandleSource h))
         \<or> unat (vbuf (s_activeSounds ?s4 ! unat (getHandleSource h))) = unat (getHandleBuffer h)"
        unfolding ws4 by simp
      obtain s5 where p: "playSoundInternal ?s4 h (volume info) (pan info) lp False = (True, s5)"
        by (simp add: playSoundInternal_def Let_def)
      from playSoundInternal_inv [OF i4 pre, of "volume info" "pan info" lp] p
      have i5: "soundInv s5" by simp
      have "soundInv (s5\<lparr>s_userValue := (s_userValue s5)[unat (getHandleSource h) := userValue info]\<rparr>)"
        using i5 by (subst soundInv_cong) simp_all
      with playSound2D_play [OF True g' a ok p] show ?thesis by simp
    qed
  qed
qed

section \<open>Every sequence of calls keeps the invariant\<close>



lemma soundInv_init:
  assumes "32 \<le> length genSources" and "distinct (take 32 genSources)"
  shows "soundInv (init genBuffers genSources)"
proof -
  have z: "busyCount (replicate 32 0) c = 0" for c
    by (rule busyCount_idle) (simp add: busy_def)
  show ?thesis
    unfolding soundInv_def using assms
    by (simp add: init_fields init_buffer z)
qed

lemma genSources0_ok: "32 \<le> length genSources0 \<and> distinct (take 32 genSources0)"
proof -
  have "inj_on (of_nat :: nat \<Rightarrow> u32) (set [1..<33])"
  proof (rule inj_onI)
    fix x y :: nat
    assume x: "x \<in> set [1..<33]" and y: "y \<in> set [1..<33]"
      and e: "(of_nat x :: u32) = of_nat y"
    from e have "unat (of_nat x :: u32) = unat (of_nat y :: u32)" by simp
    with x y show "x = y" by (simp add: unat_of_nat)
  qed
  then have "distinct genSources0"
    unfolding genSources0_def by (simp add: distinct_map)
  then show ?thesis by (simp add: genSources0_def)
qed

section \<open>Reference counts\<close>



section \<open>One call of update\<close>

lemma updateWord_fields:
  "vbuf (updateWord st w) = vbuf w" "vgen (updateWord st w) = vgen w"
  "bit (updateWord st w) 27 = bit w 27"
  "bit (updateWord st w) 28 = (bit w 28 \<and> st = AL_PLAYING)"
  by (auto simp: updateWord_def flag_fields flag_bits)

lemma finishes_cong:
  assumes "s_activeSounds s' ! v = s_activeSounds s ! v" "al s' = al s" "s_sources s' = s_sources s"
  shows "finishes s' v = finishes s v"
  by (simp add: finishes_def checkActiveFlag_def assms)

lemma update_loop:
  assumes n: "n \<le> length (s_activeSounds s)"
  defines "U \<equiv> fold (\<lambda>sid st. updateSound st sid) [0..<n] s"
  shows "length (s_activeSounds U) = length (s_activeSounds s)
     \<and> (\<forall>v. s_activeSounds U ! v =
            (if v < n then updateWord (src_state (al s (s_sources s ! v))) (s_activeSounds s ! v)
             else s_activeSounds s ! v))
     \<and> callbackLog U = callbackLog s @
          (if s_callback s then map (\<lambda>v. s_userValue s ! v) (filter (finishes s) [0..<n]) else [])
     \<and> length (s_buffers U) = length (s_buffers s)
     \<and> (\<forall>b<length (s_buffers s). refCount (s_buffers U ! b) = refCount (s_buffers s ! b)
            - (if s_callback s
               then int (length (filter (\<lambda>v. finishes s v \<and> unat (vbuf (s_activeSounds s ! v)) = b) [0..<n]))
               else 0))
     \<and> al U = al s \<and> s_sources U = s_sources s \<and> s_userValue U = s_userValue s
     \<and> s_callback U = s_callback s \<and> s_bufferMap U = s_bufferMap s
     \<and> s_currentFrame U = s_currentFrame s \<and> s_mutex U = s_mutex s \<and> s_init U = s_init s"
  using n unfolding U_def
proof (induction n)
  case 0
  then show ?case by simp
next
  case (Suc n)
  let ?U = "fold (\<lambda>sid st. updateSound st sid) [0..<n] s"
  from Suc.prems have n: "n < length (s_activeSounds s)" by simp
  with Suc.IH have ih:
    "length (s_activeSounds ?U) = length (s_activeSounds s)"
    "\<And>v. s_activeSounds ?U ! v =
            (if v < n then updateWord (src_state (al s (s_sources s ! v))) (s_activeSounds s ! v)
             else s_activeSounds s ! v)"
    "callbackLog ?U = callbackLog s @
          (if s_callback s then map (\<lambda>v. s_userValue s ! v) (filter (finishes s) [0..<n]) else [])"
    "length (s_buffers ?U) = length (s_buffers s)"
    "\<And>b. b < length (s_buffers s) \<Longrightarrow> refCount (s_buffers ?U ! b) = refCount (s_buffers s ! b)
            - (if s_callback s
               then int (length (filter (\<lambda>v. finishes s v \<and> unat (vbuf (s_activeSounds s ! v)) = b) [0..<n]))
               else 0)"
    "al ?U = al s" "s_sources ?U = s_sources s" "s_userValue ?U = s_userValue s"
    "s_callback ?U = s_callback s" "s_bufferMap ?U = s_bufferMap s"
    "s_currentFrame ?U = s_currentFrame s" "s_mutex ?U = s_mutex s" "s_init ?U = s_init s"
    by simp_all
  have nl: "n < length (s_activeSounds ?U)" using n ih(1) by simp
  note f = updateSound_fields [OF nl]
  have wn: "s_activeSounds ?U ! n = s_activeSounds s ! n" by (simp add: ih(2))
  have fin: "finishes ?U n = finishes s n"
    by (rule finishes_cong) (simp_all add: wn ih)
  have e: "fold (\<lambda>sid st. updateSound st sid) [0..<Suc n] s = updateSound ?U n" by simp
  show ?case
    unfolding e
  proof (intro conjI allI impI)
    show "length (s_activeSounds (updateSound ?U n)) = length (s_activeSounds s)"
      by (simp add: f ih)
    show "s_activeSounds (updateSound ?U n) ! v =
            (if v < Suc n then updateWord (src_state (al s (s_sources s ! v))) (s_activeSounds s ! v)
             else s_activeSounds s ! v)" for v
      using nl by (auto simp: f(1) nth_list_update_cases ih less_Suc_eq)
    show "callbackLog (updateSound ?U n) = callbackLog s @
          (if s_callback s then map (\<lambda>v. s_userValue s ! v) (filter (finishes s) [0..<Suc n]) else [])"
      by (simp add: f(2) fin ih)
    show "length (s_buffers (updateSound ?U n)) = length (s_buffers s)"
      by (simp add: f(3) ih)
    show "refCount (s_buffers (updateSound ?U n) ! b) = refCount (s_buffers s ! b)
            - (if s_callback s
               then int (length (filter (\<lambda>v. finishes s v \<and> unat (vbuf (s_activeSounds s ! v)) = b) [0..<Suc n]))
               else 0)" if "b < length (s_buffers s)" for b
      using that ih(5) [OF that] by (auto simp: f(3) fin ih(9) wn nth_list_update_cases ih(4))
    show "al (updateSound ?U n) = al s" "s_sources (updateSound ?U n) = s_sources s"
      "s_userValue (updateSound ?U n) = s_userValue s" "s_callback (updateSound ?U n) = s_callback s"
      "s_bufferMap (updateSound ?U n) = s_bufferMap s"
      "s_currentFrame (updateSound ?U n) = s_currentFrame s"
      "s_mutex (updateSound ?U n) = s_mutex s" "s_init (updateSound ?U n) = s_init s"
      by (simp_all add: f ih)
  qed
qed

lemma update_effect:
  assumes i: "s_init s" and lw: "length (s_activeSounds s) = 32" and lb: "length (s_buffers s) = 256"
  shows "(s_callback s \<longrightarrow> callbackLog (update s)
            = callbackLog s @ map (\<lambda>v. s_userValue s ! v) (filter (finishes s) [0..<32]))
     \<and> (\<not> s_callback s \<longrightarrow> callbackLog (update s) = callbackLog s)
     \<and> (s_callback s \<longrightarrow> (\<forall>b<256. refCount (s_buffers (update s) ! b) = refCount (s_buffers s ! b)
            - int (length (filter (\<lambda>v. finishes s v \<and> unat (getActiveBuffer s v) = b) [0..<32]))))
     \<and> (\<forall>v<32. finishes s v \<longrightarrow> \<not> checkActiveFlag (update s) v SOUND_PLAYING)
     \<and> s_currentFrame (update s) = s_currentFrame s + 1
     \<and> (\<forall>h. isActiveNoLock ivh (update s) h = isActiveNoLock ivh s h)
     \<and> s_mutex (update s) = s_mutex s"
proof -
  let ?U = "fold (\<lambda>sid st. updateSound st sid) [0..<32] (Lock s)"
  have u: "update s = Unlock (?U\<lparr>s_currentFrame := s_currentFrame ?U + 1\<rparr>)"
    using i by (simp add: update_def Let_def s_maxSimulSounds_def)
  have "32 \<le> length (s_activeSounds (Lock s))" using lw by simp
  from update_loop [OF this] have l:
    "\<And>v. s_activeSounds ?U ! v =
            (if v < 32 then updateWord (src_state (al s (s_sources s ! v))) (s_activeSounds s ! v)
             else s_activeSounds s ! v)"
    "callbackLog ?U = callbackLog s @
          (if s_callback s then map (\<lambda>v. s_userValue s ! v) (filter (finishes (Lock s)) [0..<32]) else [])"
    "\<And>b. b < 256 \<Longrightarrow> refCount (s_buffers ?U ! b) = refCount (s_buffers s ! b)
            - (if s_callback s
               then int (length (filter (\<lambda>v. finishes (Lock s) v \<and> unat (vbuf (s_activeSounds s ! v)) = b) [0..<32]))
               else 0)"
    "s_currentFrame ?U = s_currentFrame s" "s_mutex ?U = Suc (s_mutex s)" "s_init ?U = s_init s"
    using lb by simp_all
  have fl: "finishes (Lock s) = finishes s"
    by (rule ext) (simp add: finishes_def checkActiveFlag_def)
  have ab: "getActiveBuffer s v = vbuf (s_activeSounds s ! v)" for v
    by (simp add: getActiveBuffer_def vbuf_def)
  show ?thesis
    unfolding u
  proof (intro conjI allI impI)
    show "isActiveNoLock ivh (Unlock (?U\<lparr>s_currentFrame := s_currentFrame ?U + 1\<rparr>)) h
          = isActiveNoLock ivh s h" for h
      using getHandleSource_lt [of h]
      by (simp add: isActiveNoLock_iff l(1) l(6) updateWord_fields)
    show "\<not> checkActiveFlag (Unlock (?U\<lparr>s_currentFrame := s_currentFrame ?U + 1\<rparr>)) v SOUND_PLAYING"
      if "v < 32" "finishes s v" for v
      using that by (simp add: checkActiveFlag_def flag_bit l(1) updateWord_fields finishes_def)
  qed (simp_all add: l fl ab)
qed

text \<open>Claim C2, as amended. One call of update on an initialised subsystem: when a
  completion callback is installed, the callback is invoked exactly once for every voice
  that is flagged PLAYING while its native source is not playing (stopped), in slot
  order, with that voice's userValue, and each buffer's refCount goes down by the number
  of such voices bound to it (by exactly 1 for each); with no callback installed none is
  invoked. In both cases the PLAYING flag of every such voice is cleared, the frame
  counter advances by exactly one, the lock is released, and the ACTIVE flag, the bound
  buffer and the generation of every voice stay as they were: isActive answers for every
  handle what it answered before the tick.\<close>

theorem update_tick:
  assumes "s_init s" and "length (s_activeSounds s) = 32" and "length (s_buffers s) = 256"
  shows "(s_callback s \<longrightarrow> callbackLog (update s)
            = callbackLog s @ map (\<lambda>v. s_userValue s ! v) (filter (finishes s) [0..<32]))
     \<and> (\<not> s_callback s \<longrightarrow> callbackLog (update s) = callbackLog s)
     \<and> (s_callback s \<longrightarrow> (\<forall>b<256. refCount (s_buffers (update s) ! b) = refCount (s_buffers s ! b)
            - int (length (filter (\<lambda>v. finishes s v \<and> unat (getActiveBuffer s v) = b) [0..<32]))))
     \<and> (\<forall>v<32. finishes s v \<longrightarrow> \<not> checkActiveFlag (update s) v SOUND_PLAYING)
     \<and> s_currentFrame (update s) = s_currentFrame s + 1
     \<and> (\<forall>h. isActiveNoLock ivh (update s) h = isActiveNoLock ivh s h)
     \<and> s_mutex (update s) = s_mutex s"
  by (rule update_effect [OF assms])

section \<open>What a play call does\<close>

lemma markLoaded_fields:
  "s_activeSounds (markLoaded s b) = s_activeSounds s" "al (markLoaded s b) = al s"
  "s_sources (markLoaded s b) = s_sources s" "s_userValue (markLoaded s b) = s_userValue s"
  "s_bufferMap (markLoaded s b) = s_bufferMap s" "s_mutex (markLoaded s b) = s_mutex s"
  "s_init (markLoaded s b) = s_init s" "s_callback (markLoaded s b) = s_callback s"
  "s_currentFrame (markLoaded s b) = s_currentFrame s"
  "s_globalVolume (markLoaded s b) = s_globalVolume s"
  "callbackLog (markLoaded s b) = callbackLog s"
  "length (s_buffers (markLoaded s b)) = length (s_buffers s)"
  by (simp_all add: markLoaded_def)

lemma active_set: "(f OR BUFFER_ACTIVE) AND BUFFER_ACTIVE \<noteq> 0"
proof -
  have "(f OR 1) AND 1 = (1 :: u32)"
    by (rule bit_word_eqI) (auto simp: bit_simps)
  then show ?thesis by (simp add: BUFFER_ACTIVE_def)
qed

lemma markLoaded_buffer:
  "c < length (s_buffers s) \<Longrightarrow>
   name (s_buffers (markLoaded s b) ! c) = name (s_buffers s ! c)
   \<and> index (s_buffers (markLoaded s b) ! c) = index (s_buffers s ! c)
   \<and> refCount (s_buffers (markLoaded s b) ! c) = refCount (s_buffers s ! c)
   \<and> lastUsed (s_buffers (markLoaded s b) ! c) = lastUsed (s_buffers s ! c)
   \<and> oalBuffer (s_buffers (markLoaded s b) ! c) = oalBuffer (s_buffers s ! c)
   \<and> (flags (s_buffers (markLoaded s b) ! c) AND BUFFER_ACTIVE \<noteq> 0)
       = (c = b \<or> flags (s_buffers s ! c) AND BUFFER_ACTIVE \<noteq> 0)"
  by (auto simp: markLoaded_def nth_list_update_cases BUFFER_ACTIVE_def)

lemma playSound2D_voice:
  fixes ivh :: SoundHandle and info :: SoundInfo and lp :: bool
  assumes i: "s_init s" and g: "getSoundBuffer (Lock s) nm = (Some b, s2)"
    and ix: "index (s_buffers s2 ! b) = of_nat b" and b: "b < 256"
    and f: "findFreeSound (s_activeSounds s2) 0 = Some v" and v: "v < 32"
    and ok: "\<not> (flags (s_buffers s2 ! b) AND BUFFER_ACTIVE = 0 \<and> e)"
  defines "r \<equiv> playSound2D ivh s nm e info lp"
  shows "fst r = makeHandle (of_nat b) v ((vgen (s_activeSounds s2 ! v) + 1) AND 0x7ffff)"
    and "s_activeSounds (snd r) =
           (s_activeSounds s2)[v := playWord (allocWord (s_activeSounds s2 ! v) (of_nat b)) lp]"
    and "s_buffers (snd r) = (s_buffers (markLoaded s2 b))
           [b := (s_buffers (markLoaded s2 b) ! b)
              \<lparr>lastUsed := s_currentFrame s2,
               refCount := refCount (s_buffers (markLoaded s2 b) ! b) + 1\<rparr>]"
    and "al (snd r) = (al s2)(s_sources s2 ! v :=
           playSource (al s2 (s_sources s2 ! v)) (oalBuffer (s_buffers (markLoaded s2 b) ! b))
             (min (volume info * s_globalVolume s2) 1) (pan info) lp)"
    and "s_userValue (snd r) = (s_userValue s2)[v := userValue info]"
    and "s_bufferMap (snd r) = s_bufferMap s2" and "s_mutex (snd r) = s_mutex s2 - 1"
    and "s_init (snd r) = s_init s2" and "s_sources (snd r) = s_sources s2"
    and "s_callback (snd r) = s_callback s2" and "s_currentFrame (snd r) = s_currentFrame s2"
    and "callbackLog (snd r) = callbackLog s2" and "s_globalVolume (snd r) = s_globalVolume s2"
proof -
  let ?g = "(vgen (s_activeSounds s2 ! v) + 1) AND 0x7ffff"
  let ?h = "makeHandle (of_nat b) v ?g"
  let ?s3 = "s2\<lparr>s_activeSounds := (s_activeSounds s2)[v := allocWord (s_activeSounds s2 ! v) (of_nat b)]\<rparr>"
  from findFreeSound_Some [OF f] have vl: "v < length (s_activeSounds s2)" by simp
  have a: "allocateSound ivh s2 (index (s_buffers s2 ! b)) = (?h, ?s3)"
    unfolding ix by (rule allocateSound_Some [OF f])
  note d = decode_makeHandle [OF of_nat_small [OF b] v gen_small, of "vgen (s_activeSounds s2 ! v) + 1"]
  have hs: "unat (getHandleSource ?h) = v" by (rule d(2))
  have hb: "unat (getHandleBuffer ?h) = b" using d(1) b by (simp add: unat_of_nat_small)
  have ok3: "\<not> (flags (s_buffers ?s3 ! b) AND BUFFER_ACTIVE = 0 \<and> e)" using ok by simp
  have vl4: "unat (getHandleSource ?h) < length (s_activeSounds (markLoaded ?s3 b))"
    using vl by (simp add: hs markLoaded_fields)
  note p = playSoundInternal_eq [OF vl4, of "volume info" "pan info" lp]
  note e = playSound2D_play [OF i g a ok3 p]
  have ml: "s_buffers (markLoaded ?s3 b) = s_buffers (markLoaded s2 b)"
    by (simp add: markLoaded_def)
  show "fst r = ?h" by (simp add: r_def e)
  show "s_activeSounds (snd r) =
           (s_activeSounds s2)[v := playWord (allocWord (s_activeSounds s2 ! v) (of_nat b)) lp]"
    using vl by (simp add: r_def e hs markLoaded_fields)
  show "s_buffers (snd r) = (s_buffers (markLoaded s2 b))
           [b := (s_buffers (markLoaded s2 b) ! b)
              \<lparr>lastUsed := s_currentFrame s2,
               refCount := refCount (s_buffers (markLoaded s2 b) ! b) + 1\<rparr>]"
    by (simp add: r_def e hb ml markLoaded_fields)
  show "al (snd r) = (al s2)(s_sources s2 ! v :=
           playSource (al s2 (s_sources s2 ! v)) (oalBuffer (s_buffers (markLoaded s2 b) ! b))
             (min (volume info * s_globalVolume s2) 1) (pan info) lp)"
    by (simp add: r_def e hs hb ml markLoaded_fields)
  show "s_userValue (snd r) = (s_userValue s2)[v := userValue info]"
    by (simp add: r_def e hs markLoaded_fields)
  show "s_bufferMap (snd r) = s_bufferMap s2" "s_mutex (snd r) = s_mutex s2 - 1"
    "s_init (snd r) = s_init s2" "s_sources (snd r) = s_sources s2"
    "s_callback (snd r) = s_callback s2" "s_currentFrame (snd r) = s_currentFrame s2"
    "callbackLog (snd r) = callbackLog s2" "s_globalVolume (snd r) = s_globalVolume s2"
    by (simp_all add: r_def e markLoaded_fields)
qed

lemma playSound2D_starved:
  fixes ivh :: SoundHandle and info :: SoundInfo and lp :: bool
  assumes i: "s_init s" and g: "getSoundBuffer (Lock s) nm = (Some b, s2)"
    and f: "findFreeSound (s_activeSounds s2) 0 = None" and l: "length (s_activeSounds s2) = 32"
    and ok: "\<not> (flags (s_buffers s2 ! b) AND BUFFER_ACTIVE = 0 \<and> e)"
  defines "r \<equiv> playSound2D ivh s nm e info lp"
    and "v \<equiv> unat (getHandleSource ivh)" and "c \<equiv> unat (getHandleBuffer ivh)"
  shows "fst r = ivh"
    and "s_activeSounds (snd r) = (s_activeSounds s2)[v := playWord (s_activeSounds s2 ! v) lp]"
    and "s_buffers (snd r) = (s_buffers (markLoaded s2 b))
           [c := (s_buffers (markLoaded s2 b) ! c)
              \<lparr>lastUsed := s_currentFrame s2,
               refCount := refCount (s_buffers (markLoaded s2 b) ! c) + 1\<rparr>]"
    and "al (snd r) = (al s2)(s_sources s2 ! v :=
           playSource (al s2 (s_sources s2 ! v)) (oalBuffer (s_buffers (markLoaded s2 b) ! c))
             (min (volume info * s_globalVolume s2) 1) (pan info) lp)"
    and "s_userValue (snd r) = (s_userValue s2)[v := userValue info]"
    and "s_bufferMap (snd r) = s_bufferMap s2" and "s_mutex (snd r) = s_mutex s2 - 1"
proof -
  have a: "allocateSound ivh s2 (index (s_buffers s2 ! b)) = (ivh, s2)"
    by (rule allocateSound_None [OF f])
  have vl4: "unat (getHandleSource ivh) < length (s_activeSounds (markLoaded s2 b))"
    using getHandleSource_lt [of ivh] l by (simp add: markLoaded_fields)
  note p = playSoundInternal_eq [OF vl4, of "volume info" "pan info" lp]
  note e = playSound2D_play [OF i g a ok p]
  show "fst r = ivh" by (simp add: r_def e)
  show "s_activeSounds (snd r) = (s_activeSounds s2)[v := playWord (s_activeSounds s2 ! v) lp]"
    by (simp add: r_def e v_def markLoaded_fields)
  show "s_buffers (snd r) = (s_buffers (markLoaded s2 b))
           [c := (s_buffers (markLoaded s2 b) ! c)
              \<lparr>lastUsed := s_currentFrame s2,
               refCount := refCount (s_buffers (markLoaded s2 b) ! c) + 1\<rparr>]"
    by (simp add: r_def e c_def markLoaded_fields)
  show "al (snd r) = (al s2)(s_sources s2 ! v :=
           playSource (al s2 (s_sources s2 ! v)) (oalBuffer (s_buffers (markLoaded s2 b) ! c))
             (min (volume info * s_globalVolume s2) 1) (pan info) lp)"
    by (simp add: r_def e v_def c_def markLoaded_fields)
  show "s_userValue (snd r) = (s_userValue s2)[v := userValue info]"
    by (simp add: r_def e v_def markLoaded_fields)
  show "s_bufferMap (snd r) = s_bufferMap s2" "s_mutex (snd r) = s_mutex s2 - 1"
    by (simp_all add: r_def e markLoaded_fields)
qed

section \<open>Short scenarios from the initial state\<close>

lemma first_play:
  fixes ivh :: SoundHandle and info :: SoundInfo and lp :: bool and s :: sound_state
    and gb gs :: "u32 list"
  assumes i: "s_init s" and m: "s_bufferMap s nm = None"
    and bs: "s_buffers s = s_buffers (init gb gs)" and ws: "s_activeSounds s = replicate 32 0"
  defines "r \<equiv> playSound2D ivh s nm False info lp"
  shows "fst r = 0x2000"
    and "s_activeSounds (snd r) = (replicate 32 0)[0 := playWord (allocWord 0 0) lp]"
    and "s_buffers (snd r) ! 0 =
           \<lparr>name = nm, flags = BUFFER_ACTIVE, index = 0, refCount = 1,
            lastUsed = s_currentFrame s, oalBuffer = gb ! 0\<rparr>"
    and "\<And>c. 0 < c \<Longrightarrow> c < 256 \<Longrightarrow> s_buffers (snd r) ! c = s_buffers (init gb gs) ! c"
    and "length (s_buffers (snd r)) = 256"
    and "s_bufferMap (snd r) = (s_bufferMap s)(nm \<mapsto> 0)"
    and "s_mutex (snd r) = s_mutex s" and "s_init (snd r)" and "s_sources (snd r) = s_sources s"
    and "s_callback (snd r) = s_callback s" and "callbackLog (snd r) = callbackLog s"
    and "s_userValue (snd r) = (s_userValue s)[0 := userValue info]"
    and "al (snd r) (s_sources s ! 0) =
           playSource (al s (s_sources s ! 0)) (gb ! 0) (min (volume info * s_globalVolume s) 1)
             (pan info) lp"
    and "s_globalVolume (snd r) = s_globalVolume s"
proof -
  let ?s2 = "(Lock s)\<lparr>s_buffers := (s_buffers (Lock s))[0 := (s_buffers (Lock s) ! 0)\<lparr>name := nm\<rparr>],
                s_bufferMap := (s_bufferMap (Lock s))(nm \<mapsto> of_nat 0)\<rparr>"
  have ff: "findFreeBuffer (s_buffers s) 0 = Some 0"
    using findFreeBuffer_init [of gb gs] by (simp add: bs)
  have g: "getSoundBuffer (Lock s) nm = (Some 0, ?s2)"
    by (rule getSoundBuffer_free) (simp_all add: m ff)
  have ix: "index (s_buffers ?s2 ! 0) = of_nat 0"
    by (simp add: bs init_fields init_buffer)
  have f: "findFreeSound (s_activeSounds ?s2) 0 = Some 0"
    by (simp add: ws findFreeSound_zeros)
  have ok: "\<not> (flags (s_buffers ?s2 ! 0) AND BUFFER_ACTIVE = 0 \<and> False)" by simp
  note p = playSound2D_voice [OF i g ix _ f _ ok, of ivh info lp, folded r_def]
  have g1: "(vgen 0 + 1) AND 0x7ffff = (1 :: u32)" by (simp add: vgen_def)
  show "fst r = 0x2000" by (simp add: p(1) ws g1 makeHandle_def)
  show "s_activeSounds (snd r) = (replicate 32 0)[0 := playWord (allocWord 0 0) lp]"
    by (simp add: p(2) ws)
  show "s_buffers (snd r) ! 0 =
           \<lparr>name = nm, flags = BUFFER_ACTIVE, index = 0, refCount = 1,
            lastUsed = s_currentFrame s, oalBuffer = gb ! 0\<rparr>"
    by (simp add: p(3) markLoaded_def bs init_fields init_buffer)
  show "s_buffers (snd r) ! c = s_buffers (init gb gs) ! c" if "0 < c" "c < 256" for c
    using that by (simp add: p(3) markLoaded_def bs init_fields init_buffer)
  show "length (s_buffers (snd r)) = 256"
    by (simp add: p(3) markLoaded_fields bs init_fields)
  show "s_bufferMap (snd r) = (s_bufferMap s)(nm \<mapsto> 0)" by (simp add: p(6))
  show "s_mutex (snd r) = s_mutex s" by (simp add: p(7))
  show "s_init (snd r)" by (simp add: p(8) i)
  show "s_sources (snd r) = s_sources s" by (simp add: p(9))
  show "s_callback (snd r) = s_callback s" by (simp add: p(10))
  show "callbackLog (snd r) = callbackLog s" by (simp add: p(12))
  show "s_userValue (snd r) = (s_userValue s)[0 := userValue info]" by (simp add: p(5))
  show "al (snd r) (s_sources s ! 0) =
           playSource (al s (s_sources s ! 0)) (gb ! 0) (min (volume info * s_globalVolume s) 1)
             (pan info) lp"
    by (simp add: p(4) markLoaded_def bs init_fields init_buffer)
  show "s_globalVolume (snd r) = s_globalVolume s" by (simp add: p(13))
qed

lemma genSources0_nth: "v < 32 \<Longrightarrow> genSources0 ! v = of_nat (Suc v)"
  by (simp add: genSources0_def)

lemma st0_fields:
  "s_init st0" "s_bufferMap st0 = Map.empty" "s_activeSounds st0 = replicate 32 0"
  "s_userValue st0 = replicate 32 0" "s_sources st0 = genSources0" "s_mutex st0 = 0"
  "s_callback st0 = False" "s_currentFrame st0 = 1" "s_globalVolume st0 = 0.8"
  "al st0 = (\<lambda>_. al_fresh)" "callbackLog st0 = []"
  "s_buffers st0 = s_buffers (init genBuffers0 genSources0)"
  by (simp_all add: st0_def init_fields genSources0_def)

lemma reset_fields:
  assumes lw: "length (s_activeSounds s) = 32" and lb: "length (s_buffers s) = 256"
  shows "s_activeSounds (reset s) = replicate 32 0"
    and "length (s_buffers (reset s)) = 256"
    and "\<And>b. b < 256 \<Longrightarrow> s_buffers (reset s) ! b
           = (s_buffers s ! b)\<lparr>refCount := 0, flags := 0, lastUsed := 0\<rparr>"
    and "s_bufferMap (reset s) = s_bufferMap s" and "s_init (reset s) = s_init s"
    and "s_mutex (reset s) = s_mutex s" and "s_sources (reset s) = s_sources s"
    and "s_userValue (reset s) = s_userValue s" and "s_callback (reset s) = s_callback s"
    and "s_currentFrame (reset s) = s_currentFrame s"
proof -
  let ?f = "\<lambda>sid st. resetSound st sid"
  let ?g = "\<lambda>b st. resetBuffer st b"
  let ?s2 = "fold ?f [0..<32] (Lock s)"
  let ?s3 = "fold ?g [0..<256] ?s2"
  let ?P = "\<lambda>i st. length (s_activeSounds st) = 32 \<and> (\<forall>u<i. s_activeSounds st ! u = 0)
      \<and> s_buffers st = s_buffers s \<and> s_bufferMap st = s_bufferMap s \<and> s_init st = s_init s
      \<and> s_mutex st = Suc (s_mutex s) \<and> s_sources st = s_sources s
      \<and> s_userValue st = s_userValue s \<and> s_callback st = s_callback s
      \<and> s_currentFrame st = s_currentFrame s"
  have a: "?P 32 ?s2"
  proof (rule fold_upt_inv [where P = ?P])
    show "?P 0 (Lock s)" using lw by simp
  next
    fix i and st :: sound_state assume "i < 32" "?P i st"
    then show "?P (Suc i) (resetSound st i)"
      by (auto simp: resetSound_def Let_def nth_list_update_cases less_Suc_eq)
  qed
  let ?Q = "\<lambda>i st. length (s_buffers st) = 256
      \<and> (\<forall>b<256. s_buffers st ! b = (if b < i then (s_buffers s ! b)\<lparr>refCount := 0, flags := 0, lastUsed := 0\<rparr>
                                      else s_buffers s ! b))
      \<and> s_activeSounds st = s_activeSounds ?s2 \<and> s_bufferMap st = s_bufferMap s
      \<and> s_init st = s_init s \<and> s_mutex st = Suc (s_mutex s) \<and> s_sources st = s_sources s
      \<and> s_userValue st = s_userValue s \<and> s_callback st = s_callback s
      \<and> s_currentFrame st = s_currentFrame s"
  have b: "?Q 256 ?s3"
  proof (rule fold_upt_inv [where P = ?Q])
    show "?Q 0 ?s2" using a lb by simp
  next
    fix i and st :: sound_state assume "i < 256" "?Q i st"
    then show "?Q (Suc i) (resetBuffer st i)"
      by (auto simp: resetBuffer_def nth_list_update_cases less_Suc_eq)
  qed
  have r: "reset s = Unlock ?s3"
    by (simp add: reset_def Let_def s_maxSimulSounds_def s_numBuffers_def)
  have "s_activeSounds ?s2 = replicate 32 0"
    using a by (intro nth_equalityI) simp_all
  with b show "s_activeSounds (reset s) = replicate 32 0" by (simp add: r)
  show "length (s_buffers (reset s)) = 256" using b by (simp add: r)
  show "s_buffers (reset s) ! b = (s_buffers s ! b)\<lparr>refCount := 0, flags := 0, lastUsed := 0\<rparr>"
    if "b < 256" for b using b that by (simp add: r)
  show "s_bufferMap (reset s) = s_bufferMap s" "s_init (reset s) = s_init s"
    "s_mutex (reset s) = s_mutex s" "s_sources (reset s) = s_sources s"
    "s_userValue (reset s) = s_userValue s" "s_callback (reset s) = s_callback s"
    "s_currentFrame (reset s) = s_currentFrame s"
    using b by (simp_all add: r)
qed

lemma filter_upt_first:
  assumes "0 < n" and "P 0" and "\<And>v. 0 < v \<Longrightarrow> v < n \<Longrightarrow> \<not> P v"
  shows "filter P [0..<n] = [0]"
proof -
  have "[0..<n] = 0 # [Suc 0..<n]" using assms(1) by (simp add: upt_conv_Cons)
  moreover have "filter P [Suc 0..<n] = []"
    using assms(3) by (auto simp: filter_empty_conv)
  ultimately show ?thesis using assms(2) by simp
qed

lemma handle_2000:
  "getHandleSource 0x2000 = 0" "getHandleBuffer 0x2000 = 0" "getHandleAllocID 0x2000 = 1"
  "getHandleSource 0x4000 = 0" "getHandleBuffer 0x4000 = 0" "getHandleAllocID 0x4000 = 2"
  by (simp_all add: getHandleSource_def getHandleBuffer_def getHandleAllocID_def)

lemma info0_fields: "userValue info0 = 7" "volume info0 = 1" "pan info0 = 0"
  by (simp_all add: info0_def)

lemma vgen_0: "vgen 0 = 0"
  by (simp add: vgen_def)

lemma first_word:
  "vbuf (playWord (allocWord 0 0) lp) = 0" "vgen (playWord (allocWord 0 0) lp) = 1"
  "bit (playWord (allocWord 0 0) lp) 27" "bit (playWord (allocWord 0 0) lp) 28"
  "bit (playWord (allocWord 0 0) lp) 29 = lp" "\<not> bit (playWord (allocWord 0 0) lp) 30"
  by (simp_all add: playWord_fields allocWord_fields vgen_0)

lemma setCallback_st0:
  "s_init (setCallback st0 c)" "s_bufferMap (setCallback st0 c) = Map.empty"
  "s_buffers (setCallback st0 c) = s_buffers (init genBuffers0 genSources0)"
  "s_activeSounds (setCallback st0 c) = replicate 32 0" "s_callback (setCallback st0 c) = c"
  "s_sources (setCallback st0 c) = genSources0" "s_userValue (setCallback st0 c) = replicate 32 0"
  "callbackLog (setCallback st0 c) = []" "s_mutex (setCallback st0 c) = 0"
  "s_currentFrame (setCallback st0 c) = 1" "al (setCallback st0 c) = (\<lambda>_. al_fresh)"
  by (simp_all add: setCallback_def st0_fields)

lemma tickState_fields:
  "s_init tickState" "s_callback tickState" "callbackLog tickState = []"
  "s_activeSounds tickState = (replicate 32 0)[0 := playWord (allocWord 0 0) False]"
  "length (s_buffers tickState) = 256" "s_sources tickState = genSources0"
  "s_userValue tickState = (replicate 32 0)[0 := 7]"
  "src_state (al tickState 1) = AL_STOPPED"
  "refCount (s_buffers tickState ! 0) = 1"
proof -
  note p = first_play [where s = "setCallback st0 True" and nm = "''a''" and gb = genBuffers0
      and gs = genSources0 and ivh = "0xffffffff" and info = info0 and lp = False,
      OF setCallback_st0(1) _ setCallback_st0(3) setCallback_st0(4)]
  have m: "s_bufferMap (setCallback st0 True) ''a'' = None" by (simp add: setCallback_st0)
  note q = p [OF m]
  have s1: "s_sources (setCallback st0 True) ! 0 = 1"
    by (simp add: setCallback_st0 genSources0_nth)
  show "s_init tickState" by (simp add: tickState_def sourceFinished_def q)
  show "s_callback tickState" by (simp add: tickState_def sourceFinished_def q setCallback_st0)
  show "callbackLog tickState = []" by (simp add: tickState_def sourceFinished_def q setCallback_st0)
  show "s_activeSounds tickState = (replicate 32 0)[0 := playWord (allocWord 0 0) False]"
    by (simp add: tickState_def sourceFinished_def q)
  show "length (s_buffers tickState) = 256" by (simp add: tickState_def sourceFinished_def q)
  show "s_sources tickState = genSources0"
    by (simp add: tickState_def sourceFinished_def q setCallback_st0)
  show "s_userValue tickState = (replicate 32 0)[0 := 7]"
    by (simp add: tickState_def sourceFinished_def q setCallback_st0 info0_fields)
  show "src_state (al tickState 1) = AL_STOPPED"
    using q(13) by (simp add: tickState_def sourceFinished_def s1 al_finish_def playSource_def)
  show "refCount (s_buffers tickState ! 0) = 1"
    by (simp add: tickState_def sourceFinished_def q)
qed

lemma tickState_finishes: "finishes tickState v = (v = 0)" if "v < 32"
  using that
  by (auto simp: finishes_def checkActiveFlag_bit tickState_fields nth_list_update_cases
      first_word genSources0_nth)

lemma tickState_live: "isActiveNoLock 0xffffffff tickState 0x2000"
  by (simp add: isActiveNoLock_iff tickState_fields handle_2000 first_word)

text \<open>Claim C2 as stated fails on \<open>tickState\<close>: voice 0 is flagged PLAYING and its source
  has stopped; the tick invokes the callback once, with the userValue 7, and afterwards
  isActive still answers true for the handle 0x2000 that play returned.\<close>

theorem tick_leaves_handle_active:
  "fst (playSound2D 0xffffffff (setCallback st0 True) ''a'' False info0 False) = 0x2000
   \<and> checkActiveFlag tickState 0 SOUND_PLAYING
   \<and> src_state (al tickState (s_sources tickState ! 0)) = AL_STOPPED
   \<and> callbackLog (update tickState) = [7]
   \<and> fst (isActive 0xffffffff (update tickState) 0x2000)"
proof -
  have m: "s_bufferMap (setCallback st0 True) ''a'' = None" by (simp add: setCallback_st0)
  note e = update_effect [OF tickState_fields(1), of "0xffffffff"]
  have f: "filter (finishes tickState) [0..<32] = [0]"
    by (rule filter_upt_first) (simp_all add: tickState_finishes)
  have "fst (playSound2D 0xffffffff (setCallback st0 True) ''a'' False info0 False) = 0x2000"
    by (rule first_play(1) [OF setCallback_st0(1) m setCallback_st0(3) setCallback_st0(4)])
  moreover have "checkActiveFlag tickState 0 SOUND_PLAYING"
    by (simp add: checkActiveFlag_bit tickState_fields first_word)
  moreover have "src_state (al tickState (s_sources tickState ! 0)) = AL_STOPPED"
    by (simp add: tickState_fields genSources0_nth)
  moreover have "callbackLog (update tickState) = [7]"
    using e by (simp add: tickState_fields f)
  moreover have "fst (isActive 0xffffffff (update tickState) 0x2000)"
    using e tickState_live by (simp add: isActive_def Let_def tickState_fields)
  ultimately show ?thesis by blast
qed

theorem update_tick_witness:
  "s_init tickState \<and> length (s_activeSounds tickState) = 32
   \<and> length (s_buffers tickState) = 256 \<and> s_callback tickState \<and> finishes tickState 0
   \<and> callbackLog (update tickState) = callbackLog tickState @ [s_userValue tickState ! 0]
   \<and> refCount (s_buffers (update tickState) ! 0) = refCount (s_buffers tickState ! 0) - 1
   \<and> \<not> checkActiveFlag (update tickState) 0 SOUND_PLAYING
   \<and> s_currentFrame (update tickState) = s_currentFrame tickState + 1"
proof -
  have l: "length (s_activeSounds tickState) = 32" by (simp add: tickState_fields)
  have f: "filter (finishes tickState) [0..<32] = [0]"
    by (rule filter_upt_first) (simp_all add: tickState_finishes)
  have g: "filter (\<lambda>v. finishes tickState v \<and> unat (getActiveBuffer tickState v) = 0) [0..<32] = [0]"
    by (rule filter_upt_first)
      (simp_all add: tickState_finishes getActiveBuffer_def tickState_fields first_word [unfolded vbuf_def])
  from update_tick [OF tickState_fields(1) l tickState_fields(5), of "0xffffffff"]
  show ?thesis
    using tickState_finishes [of 0]
    by (simp add: tickState_fields f g)
qed

lemma afterPlay_fields:
  "s_init afterPlay" "s_bufferMap afterPlay = [''a'' \<mapsto> 0]"
  "s_activeSounds afterPlay = (replicate 32 0)[0 := playWord (allocWord 0 0) False]"
  "length (s_buffers afterPlay) = 256"
  "s_buffers afterPlay ! 0 = \<lparr>name = ''a'', flags = BUFFER_ACTIVE, index = 0, refCount = 1,
      lastUsed = 1, oalBuffer = genBuffers0 ! 0\<rparr>"
  "\<And>c. 0 < c \<Longrightarrow> c < 256 \<Longrightarrow> s_buffers afterPlay ! c = s_buffers (init genBuffers0 genSources0) ! c"
  "s_mutex afterPlay = 0" "s_sources afterPlay = genSources0"
proof -
  have m: "s_bufferMap st0 ''a'' = None" by (simp add: st0_fields)
  note q = first_play [where s = st0 and nm = "''a''" and gb = genBuffers0
      and gs = genSources0 and ivh = "0xffffffff" and info = info0 and lp = False,
      OF st0_fields(1) m st0_fields(12) st0_fields(3), folded afterPlay_def]
  show "s_init afterPlay" by (rule q)
  show "s_bufferMap afterPlay = [''a'' \<mapsto> 0]" by (simp add: q st0_fields)
  show "s_activeSounds afterPlay = (replicate 32 0)[0 := playWord (allocWord 0 0) False]" by (rule q)
  show "length (s_buffers afterPlay) = 256" by (rule q)
  show "s_buffers afterPlay ! 0 = \<lparr>name = ''a'', flags = BUFFER_ACTIVE, index = 0, refCount = 1,
      lastUsed = 1, oalBuffer = genBuffers0 ! 0\<rparr>" by (simp add: q st0_fields)
  show "s_buffers afterPlay ! c = s_buffers (init genBuffers0 genSources0) ! c"
    if "0 < c" "c < 256" for c using that by (rule q)
  show "s_mutex afterPlay = 0" by (simp add: q st0_fields)
  show "s_sources afterPlay = genSources0" by (simp add: q st0_fields)
qed

lemma afterReset_fields:
  "s_init (reset afterPlay)" "s_bufferMap (reset afterPlay) = [''a'' \<mapsto> 0]"
  "s_activeSounds (reset afterPlay) = replicate 32 0"
  "length (s_buffers (reset afterPlay)) = 256"
  "s_buffers (reset afterPlay) ! 0 = \<lparr>name = ''a'', flags = 0, index = 0, refCount = 0,
      lastUsed = 0, oalBuffer = genBuffers0 ! 0\<rparr>"
  "s_mutex (reset afterPlay) = 0"
proof -
  have lw: "length (s_activeSounds afterPlay) = 32" by (simp add: afterPlay_fields)
  note r = reset_fields [OF lw afterPlay_fields(4)]
  show "s_init (reset afterPlay)" by (simp add: r afterPlay_fields)
  show "s_bufferMap (reset afterPlay) = [''a'' \<mapsto> 0]" by (simp add: r afterPlay_fields)
  show "s_activeSounds (reset afterPlay) = replicate 32 0" by (rule r)
  show "length (s_buffers (reset afterPlay)) = 256" by (rule r)
  show "s_buffers (reset afterPlay) ! 0 = \<lparr>name = ''a'', flags = 0, index = 0, refCount = 0,
      lastUsed = 0, oalBuffer = genBuffers0 ! 0\<rparr>" by (simp add: r afterPlay_fields)
  show "s_mutex (reset afterPlay) = 0" by (simp add: r afterPlay_fields)
qed


lemma afterOther_fields:
  "s_bufferMap afterOther = [''a'' \<mapsto> 0, ''b'' \<mapsto> 0]"
  "name (s_buffers afterOther ! 0) = ''b''"
  "flags (s_buffers afterOther ! 0) AND BUFFER_ACTIVE \<noteq> 0"
proof -
  let ?R = "reset afterPlay"
  let ?s2 = "(Lock ?R)\<lparr>s_buffers := (s_buffers (Lock ?R))[0 := (s_buffers (Lock ?R) ! 0)\<lparr>name := ''b''\<rparr>],
                s_bufferMap := (s_bufferMap (Lock ?R))(''b'' \<mapsto> of_nat 0)\<rparr>"
  have ff: "findFreeBuffer (s_buffers ?R) 0 = Some 0"
    by (rule findFreeBuffer_first) (simp_all add: afterReset_fields)
  have g: "getSoundBuffer (Lock ?R) ''b'' = (Some 0, ?s2)"
    by (rule getSoundBuffer_free) (simp_all add: afterReset_fields ff)
  have ix: "index (s_buffers ?s2 ! 0) = of_nat 0" by (simp add: afterReset_fields)
  have f: "findFreeSound (s_activeSounds ?s2) 0 = Some 0"
    by (simp add: afterReset_fields findFreeSound_zeros)
  have ok: "\<not> (flags (s_buffers ?s2 ! 0) AND BUFFER_ACTIVE = 0 \<and> False)" by simp
  note p = playSound2D_voice [OF afterReset_fields(1) g ix _ f _ ok, of "0xffffffff" info0 False,
      folded afterOther_def]
  show "s_bufferMap afterOther = [''a'' \<mapsto> 0, ''b'' \<mapsto> 0]"
    by (simp add: p(6) afterReset_fields)
  have l: "0 < length (s_buffers ?s2)" by (simp add: afterReset_fields)
  show "name (s_buffers afterOther ! 0) = ''b''"
    using markLoaded_buffer [OF l, of 0] by (simp add: p(3) markLoaded_fields afterReset_fields)
  show "flags (s_buffers afterOther ! 0) AND BUFFER_ACTIVE \<noteq> 0"
    using markLoaded_buffer [OF l, of 0] by (simp add: p(3) markLoaded_fields afterReset_fields)
qed



section \<open>The name index\<close>

text \<open>Claim C9, on the code. After \<open>a\<close> is played from the initial state and reset is
  called, the index still maps \<open>a\<close> to slot 0, which reset has made inactive. A play of
  \<open>b\<close> then claims slot 0 through the scan for a free slot, which enters \<open>b\<close> and
  leaves the entry of \<open>a\<close> in place: two names map to the one slot, which is named \<open>b\<close>.\<close>

theorem name_index_out_of_sync:
  "s_bufferMap (reset afterPlay) ''a'' = Some 0
   \<and> flags (s_buffers (reset afterPlay) ! 0) AND BUFFER_ACTIVE = 0
   \<and> s_bufferMap afterOther ''a'' = Some 0
   \<and> s_bufferMap afterOther ''b'' = Some 0
   \<and> name (s_buffers afterOther ! 0) = ''b''
   \<and> flags (s_buffers afterOther ! 0) AND BUFFER_ACTIVE \<noteq> 0"
  using afterOther_fields(3)
  by (simp add: afterReset_fields afterOther_fields(1,2))

section \<open>Thirty-two plays\<close>

lemma genSources0_distinct:
  assumes "v < 32" and "u < 32"
  shows "(genSources0 ! v = genSources0 ! u) = (v = u)"
proof
  assume "genSources0 ! v = genSources0 ! u"
  then have "(of_nat (Suc v) :: u32) = of_nat (Suc u)"
    using assms by (simp only: genSources0_nth)
  then have "unat (of_nat (Suc v) :: u32) = unat (of_nat (Suc u) :: u32)"
    by (rule arg_cong)
  then have "Suc v mod 2 ^ LENGTH(32) = Suc u mod 2 ^ LENGTH(32)"
    by (simp only: unat_of_nat)
  then show "v = u" using assms by simp
qed simp

lemma soundInv_st0: "soundInv st0"
  unfolding st0_def using genSources0_ok by (intro soundInv_init) simp_all

lemma playedVoices_first: "playedVoices 1 afterPlay"
proof -
  have m: "s_bufferMap st0 ''a'' = None" by (simp add: st0_fields)
  note q = first_play [where s = st0 and nm = "''a''" and gb = genBuffers0
      and gs = genSources0 and ivh = "0xffffffff" and info = info0 and lp = False,
      OF st0_fields(1) m st0_fields(12) st0_fields(3), folded afterPlay_def]
  have inv: "soundInv afterPlay"
    unfolding afterPlay_def by (rule soundInv_playSound2D [OF soundInv_st0])
  have g: "src_gain (al afterPlay (genSources0 ! 0)) = 0.8"
    using q(13) by (simp add: st0_fields playSource_def info0_fields)
  show ?thesis
    unfolding playedVoices_def
    using inv g
    by (simp add: afterPlay_fields q(12) q(14) st0_fields info0_fields BUFFER_ACTIVE_def init_buffer
        first_word nth_list_update_cases busy_def)
qed

lemma playedVoices_step:
  assumes p: "playedVoices k s" and k: "k < 32"
  shows "playedVoices (Suc k) (snd (playSound2D 0xffffffff s ''a'' False info0 False))"
proof -
  let ?r = "playSound2D 0xffffffff s ''a'' False info0 False"
  from p have i: "s_init s" and inv: "soundInv s" and mu: "s_mutex s = 0"
    and src: "s_sources s = genSources0" and gv: "s_globalVolume s = 0.8"
    and lu: "length (s_userValue s) = 32" and mp: "s_bufferMap s ''a'' = Some 0"
    and act: "flags (s_buffers s ! 0) AND BUFFER_ACTIVE \<noteq> 0"
    and r255: "refCount (s_buffers s ! 255) = 0"
    and old: "\<And>v. v < k \<Longrightarrow> bit (s_activeSounds s ! v) 28 \<and> \<not> bit (s_activeSounds s ! v) 29
             \<and> s_userValue s ! v = 7 \<and> src_gain (al s (genSources0 ! v)) = 0.8"
    and idle: "\<And>v. k \<le> v \<Longrightarrow> v < 32 \<Longrightarrow> \<not> busy (s_activeSounds s ! v)"
    by (simp_all add: playedVoices_def)
  have lw: "length (s_activeSounds s) = 32" and lb: "length (s_buffers s) = 256"
    using inv by (simp_all add: soundInv_lens)
  have g: "getSoundBuffer (Lock s) ''a'' = (Some 0, Lock s)"
    using getSoundBuffer_hit [of "Lock s" "''a''" 0] mp by simp
  have ix: "index (s_buffers (Lock s) ! 0) = of_nat 0"
    using inv by (simp add: soundInv_def)
  have f: "findFreeSound (s_activeSounds (Lock s)) 0 = Some k"
    using k lw idle [of k] old by (intro findFreeSound_first) (auto simp: busy_def)
  have ok: "\<not> (flags (s_buffers (Lock s) ! 0) AND BUFFER_ACTIVE = 0 \<and> False)" by simp
  note q = playSound2D_voice [OF i g ix _ f k ok, of "0xffffffff" info0 False]
  have ml: "s_buffers (markLoaded (Lock s) 0) = s_buffers s"
    using act by (simp add: markLoaded_def)
  have inv': "soundInv (snd ?r)" by (rule soundInv_playSound2D [OF inv])
  show ?thesis
    unfolding playedVoices_def
  proof (intro conjI allI impI)
    show "s_init (snd ?r)" by (simp add: q i)
    show "soundInv (snd ?r)" by (rule inv')
    show "s_mutex (snd ?r) = 0" by (simp add: q mu)
    show "s_sources (snd ?r) = genSources0" by (simp add: q src)
    show "s_globalVolume (snd ?r) = 0.8" by (simp add: q gv)
    show "length (s_userValue (snd ?r)) = 32" by (simp add: q lu)
    show "s_bufferMap (snd ?r) ''a'' = Some 0" by (simp add: q mp)
    show "flags (s_buffers (snd ?r) ! 0) AND BUFFER_ACTIVE \<noteq> 0"
      using act lb by (simp add: q(3) ml)
    show "refCount (s_buffers (snd ?r) ! 255) = 0"
      using r255 by (simp add: q(3) ml)
  next
    fix v assume v: "v < Suc k"
    show "bit (s_activeSounds (snd ?r) ! v) 28"
      using v old [of v] lw k by (auto simp: q(2) nth_list_update_cases playWord_fields less_Suc_eq)
    show "\<not> bit (s_activeSounds (snd ?r) ! v) 29"
      using v old [of v] lw k
      by (auto simp: q(2) nth_list_update_cases playWord_fields allocWord_fields less_Suc_eq)
    show "s_userValue (snd ?r) ! v = 7"
      using v old [of v] lu k
      by (auto simp: q(5) nth_list_update_cases info0_fields less_Suc_eq)
    show "src_gain (al (snd ?r) (genSources0 ! v)) = 0.8"
      using v old [of v] k
      by (auto simp: q(4) src gv genSources0_distinct playSource_def info0_fields less_Suc_eq)
  next
    fix v assume v: "Suc k \<le> v \<and> v < 32"
    then show "\<not> busy (s_activeSounds (snd ?r) ! v)"
      using idle [of v] by (simp add: q(2) nth_list_update_cases)
  qed
qed

lemma playedVoices_run:
  assumes "playedVoices k s" and "k + n \<le> 32"
  shows "playedVoices (k + n) (run 0xffffffff s (replicate n (PlaySound2D ''a'' False info0 False)))"
  using assms
proof (induction n arbitrary: k s)
  case 0
  then show ?case by (simp add: run_def)
next
  case (Suc n)
  from Suc.prems have k: "k < 32" by simp
  from playedVoices_step [OF Suc.prems(1) k]
  have "playedVoices (Suc k + n)
          (run 0xffffffff (snd (playSound2D 0xffffffff s ''a'' False info0 False))
             (replicate n (PlaySound2D ''a'' False info0 False)))"
    using Suc.prems(2) by (intro Suc.IH) simp_all
  then show ?case by (simp add: run_def)
qed

lemma playedVoices_all: "playedVoices 32 allPlaying"
proof -
  have "allPlaying = run 0xffffffff afterPlay (replicate 31 (PlaySound2D ''a'' False info0 False))"
    unfolding allPlaying_def afterPlay_def run_def
    by (simp add: replicate_Suc [symmetric] del: replicate_Suc) (simp add: numeral_eq_Suc)
  moreover have "playedVoices (1 + 31)
      (run 0xffffffff afterPlay (replicate 31 (PlaySound2D ''a'' False info0 False)))"
    by (rule playedVoices_run [OF playedVoices_first]) simp
  ultimately show ?thesis by simp
qed

section \<open>A play call when every voice is in use\<close>

lemma invalid_handle_fields:
  "unat (getHandleSource 0xffffffff) = 31" "unat (getHandleBuffer 0xffffffff) = 255"
  by (simp_all add: getHandleSource_def getHandleBuffer_def)

lemma info1_fields: "userValue info1 = 9" "volume info1 = 1" "pan info1 = 0"
  by (simp_all add: info1_def info0_def)

text \<open>Claim C3, on the code. After 32 plays from the initial state no voice is free. A
  further play call returns INVALID_SOUND_HANDLE (here 0xffffffff), but playSound2D does
  not test what allocateSound returned and goes on to playSoundInternal with that
  handle, which decodes to voice 31 and buffer 255: voice 31 is restarted and gets the
  LOOPING flag of the new request, its userValue is overwritten, and the refCount of
  buffer 255 goes from 0 to 1.\<close>

theorem starved_play_disturbs_voices:
  "findFreeSound (s_activeSounds allPlaying) 0 = None
   \<and> fst (playSound2D 0xffffffff allPlaying ''a'' False info1 True) = 0xffffffff
   \<and> \<not> checkActiveFlag allPlaying 31 SOUND_LOOPING
   \<and> checkActiveFlag (snd (playSound2D 0xffffffff allPlaying ''a'' False info1 True)) 31 SOUND_LOOPING
   \<and> s_userValue allPlaying ! 31 = 7
   \<and> s_userValue (snd (playSound2D 0xffffffff allPlaying ''a'' False info1 True)) ! 31 = 9
   \<and> refCount (s_buffers allPlaying ! 255) = 0
   \<and> refCount (s_buffers (snd (playSound2D 0xffffffff allPlaying ''a'' False info1 True)) ! 255) = 1"
proof -
  let ?s = allPlaying
  let ?r = "playSound2D 0xffffffff allPlaying ''a'' False info1 True"
  from playedVoices_all have i: "s_init ?s" and inv: "soundInv ?s"
    and lu: "length (s_userValue ?s) = 32" and mp: "s_bufferMap ?s ''a'' = Some 0"
    and act: "flags (s_buffers ?s ! 0) AND BUFFER_ACTIVE \<noteq> 0"
    and r255: "refCount (s_buffers ?s ! 255) = 0"
    and old: "\<And>v. v < 32 \<Longrightarrow> bit (s_activeSounds ?s ! v) 28 \<and> \<not> bit (s_activeSounds ?s ! v) 29
             \<and> s_userValue ?s ! v = 7"
    by (simp_all add: playedVoices_def)
  have lw: "length (s_activeSounds ?s) = 32" and lb: "length (s_buffers ?s) = 256"
    using inv by (simp_all add: soundInv_lens)
  have f: "findFreeSound (s_activeSounds ?s) 0 = None"
    unfolding findFreeSound_None using old lw by (auto simp: in_set_conv_nth busy_def)
  have g: "getSoundBuffer (Lock ?s) ''a'' = (Some 0, Lock ?s)"
    using getSoundBuffer_hit [of "Lock ?s" "''a''" 0] mp by simp
  have f': "findFreeSound (s_activeSounds (Lock ?s)) 0 = None" using f by simp
  have l': "length (s_activeSounds (Lock ?s)) = 32" using lw by simp
  have ok: "\<not> (flags (s_buffers (Lock ?s) ! 0) AND BUFFER_ACTIVE = 0 \<and> False)" by simp
  note q = playSound2D_starved [OF i g f' l' ok, of "0xffffffff" info1 True,
      unfolded invalid_handle_fields]
  have ml: "s_buffers (markLoaded (Lock ?s) 0) = s_buffers ?s"
    using act by (simp add: markLoaded_def)
  have "fst ?r = 0xffffffff" by (rule q)
  moreover have "\<not> checkActiveFlag ?s 31 SOUND_LOOPING"
    using old [of 31] by (simp add: checkActiveFlag_bit)
  moreover have "checkActiveFlag (snd ?r) 31 SOUND_LOOPING"
    using lw by (simp add: checkActiveFlag_bit q(2) playWord_fields)
  moreover have "s_userValue ?s ! 31 = 7" using old [of 31] by simp
  moreover have "s_userValue (snd ?r) ! 31 = 9"
    using lu by (simp add: q(5) info1_fields)
  moreover have "refCount (s_buffers (snd ?r) ! 255) = 1"
    using lb r255 by (simp add: q(3) ml)
  ultimately show ?thesis using f r255 by blast
qed

section \<open>The sources that setGlobalVolume rescales\<close>

lemma rescale_loop:
  assumes "n \<le> 32"
  shows "al (fold (\<lambda>sid st. rescaleSource scale st sid) [0..<n] s) m =
           (if unat m < n then (al s m)\<lparr>src_gain := min (src_gain (al s m) * scale) 1\<rparr>
            else al s m)
       \<and> s_init (fold (\<lambda>sid st. rescaleSource scale st sid) [0..<n] s) = s_init s
       \<and> s_mutex (fold (\<lambda>sid st. rescaleSource scale st sid) [0..<n] s) = s_mutex s"
  using assms
proof (induction n)
  case 0
  then show ?case by simp
next
  case (Suc n)
  then have n: "n < 32" by simp
  have u: "unat (of_nat n :: u32) = n" using n by (simp add: unat_of_nat)
  have e: "(m = of_nat n) = (unat m = n)" using u by auto
  have e': "(of_nat n = m) = (unat m = n)" using u by auto
  define F where "F = fold (\<lambda>sid st. rescaleSource scale st sid) [0..<n] s"
  have ih: "al F m =
           (if unat m < n then (al s m)\<lparr>src_gain := min (src_gain (al s m) * scale) 1\<rparr>
            else al s m)"
    and ih2: "s_init F = s_init s" and ih3: "s_mutex F = s_mutex s"
    using Suc by (simp_all add: F_def)
  have step: "fold (\<lambda>sid st. rescaleSource scale st sid) [0..<Suc n] s = rescaleSource scale F n"
    by (simp add: F_def)
  have c: "unat m < Suc n \<longleftrightarrow> unat m < n \<or> unat m = n" by auto
  have nl: "unat m = n \<Longrightarrow> \<not> unat m < n" by simp
  have a: "al (rescaleSource scale F n) m =
           (if unat m < Suc n then (al s m)\<lparr>src_gain := min (src_gain (al s m) * scale) 1\<rparr>
            else al s m)"
  proof (cases "unat m = n")
    case True
    then have mn: "of_nat n = m" by (simp add: e')
    have "al F m = al s m" using True ih by simp
    then show ?thesis
      using True by (simp add: rescaleSource_def Let_def mn)
  next
    case False
    then have mn: "of_nat n \<noteq> m" by (simp add: e')
    have "al (rescaleSource scale F n) m = al F m"
      using mn by (simp add: rescaleSource_def Let_def)
    then show ?thesis using False ih by (auto simp: c)
  qed
  have b: "s_init (rescaleSource scale F n) = s_init s"
    "s_mutex (rescaleSource scale F n) = s_mutex s"
    by (simp_all add: rescaleSource_def Let_def ih2 ih3)
  show ?case unfolding step using a b by simp
qed

lemma setGlobalVolume_fields:
  assumes "s_init s" and "vol * 0.8 \<noteq> s_globalVolume s" and "0 < s_globalVolume s"
  shows "al (setGlobalVolume s vol) m =
           (if unat m < 32
            then (al s m)\<lparr>src_gain := min (src_gain (al s m) * (vol * 0.8 / s_globalVolume s)) 1\<rparr>
            else al s m)"
    and "s_globalVolume (setGlobalVolume s vol) = vol * 0.8"
    and "s_mutex (setGlobalVolume s vol) = s_mutex s"
proof -
  note l = rescale_loop [of 32 "vol * 0.8 / s_globalVolume s" "Lock s" m]
  show "al (setGlobalVolume s vol) m =
           (if unat m < 32
            then (al s m)\<lparr>src_gain := min (src_gain (al s m) * (vol * 0.8 / s_globalVolume s)) 1\<rparr>
            else al s m)"
    using assms l by (simp add: setGlobalVolume_def Let_def s_maxSimulSounds_def)
  show "s_globalVolume (setGlobalVolume s vol) = vol * 0.8"
    using assms by (simp add: setGlobalVolume_def Let_def)
  show "s_mutex (setGlobalVolume s vol) = s_mutex s"
    using assms l by (simp add: setGlobalVolume_def Let_def s_maxSimulSounds_def)
qed

text \<open>Claim C10, on the code. The loop of setGlobalVolume passes its counter \<open>s\<close> to
  alGetSourcef and alSourcef where every other function passes \<open>s_sources[s]\<close>: it
  rescales the sources named 0..31, not the 32 sources of the voices. With the sources
  named 1..32 and all of them playing at gain 0.8, setGlobalVolume(0.5) after the initial
  global volume 1.0 halves the gain of source 1 (voice 0) and leaves the gain of source
  32 (voice 31) at 0.8, where the claim has 0.4. (The f32 values are read as reals; what
  is proved does not depend on rounding.)\<close>

theorem global_volume_misses_voice:
  "s_sources allPlaying ! 0 = 1 \<and> s_sources allPlaying ! 31 = 32
   \<and> checkActiveFlag allPlaying 0 SOUND_PLAYING \<and> checkActiveFlag allPlaying 31 SOUND_PLAYING
   \<and> s_globalVolume allPlaying = 0.8
   \<and> src_gain (al allPlaying 1) = 0.8 \<and> src_gain (al allPlaying 32) = 0.8
   \<and> s_globalVolume (setGlobalVolume allPlaying 0.5) = 0.4
   \<and> src_gain (al (setGlobalVolume allPlaying 0.5) 1) = 0.4
   \<and> src_gain (al (setGlobalVolume allPlaying 0.5) 32) = 0.8"
proof -
  let ?s = allPlaying
  from playedVoices_all have i: "s_init ?s" and src: "s_sources ?s = genSources0"
    and gv: "s_globalVolume ?s = 0.8"
    and old: "\<And>v. v < 32 \<Longrightarrow> bit (s_activeSounds ?s ! v) 28
             \<and> src_gain (al ?s (genSources0 ! v)) = 0.8"
    by (simp_all add: playedVoices_def)
  have ne: "0.5 * 0.8 \<noteq> s_globalVolume ?s" by (simp add: gv)
  have pos: "0 < s_globalVolume ?s" by (simp add: gv)
  note f = setGlobalVolume_fields [OF i ne pos]
  have g0: "src_gain (al ?s 1) = 0.8" using old [of 0] by (simp add: genSources0_nth)
  have g31: "src_gain (al ?s 32) = 0.8" using old [of 31] by (simp add: genSources0_nth)
  have a1: "al (setGlobalVolume ?s 0.5) 1 =
      (al ?s 1)\<lparr>src_gain := min (src_gain (al ?s 1) * (0.5 * 0.8 / s_globalVolume ?s)) 1\<rparr>"
    by (simp only: f(1) [of 1]) simp
  have a32: "al (setGlobalVolume ?s 0.5) 32 = al ?s 32"
    by (simp only: f(1) [of 32]) simp
  have "src_gain (al (setGlobalVolume ?s 0.5) 1) = 0.4"
    by (simp only: a1) (simp add: g0 gv)
  moreover have "src_gain (al (setGlobalVolume ?s 0.5) 32) = 0.8"
    by (simp only: a32 g31)
  moreover have "s_globalVolume (setGlobalVolume ?s 0.5) = 0.4"
    using f(2) by simp
  moreover have "checkActiveFlag ?s 0 SOUND_PLAYING" "checkActiveFlag ?s 31 SOUND_PLAYING"
    using old [of 0] old [of 31] by (simp_all add: checkActiveFlag_bit)
  moreover have "s_sources ?s ! 0 = 1" "s_sources ?s ! 31 = 32"
    by (simp_all add: src genSources0_nth)
  ultimately show ?thesis using gv g0 g31 by blast
qed

section \<open>Using up the buffer pool\<close>

lemma run_append: "run ivh s (xs @ ys) = run ivh (run ivh s xs) ys"
  by (simp add: run_def)

lemma soundName_inj: "(soundName j = soundName k) = (j = k)"
proof
  assume "soundName j = soundName k"
  then have "length (soundName j) = length (soundName k)" by (rule arg_cong)
  then show "j = k" by (simp add: soundName_def)
qed simp

lemma update_no_callback:
  assumes i: "s_init s" and c: "\<not> s_callback s" and lw: "length (s_activeSounds s) = 32"
  shows "s_buffers (update s) = s_buffers s"
    and "\<And>v. v < 32 \<Longrightarrow> s_activeSounds (update s) ! v =
            updateWord (src_state (al s (s_sources s ! v))) (s_activeSounds s ! v)"
    and "s_bufferMap (update s) = s_bufferMap s" and "s_mutex (update s) = s_mutex s"
    and "s_init (update s)" and "\<not> s_callback (update s)" and "s_sources (update s) = s_sources s"
proof -
  let ?U = "fold (\<lambda>sid st. updateSound st sid) [0..<32] (Lock s)"
  have u: "update s = Unlock (?U\<lparr>s_currentFrame := s_currentFrame ?U + 1\<rparr>)"
    using i by (simp add: update_def Let_def s_maxSimulSounds_def)
  have "32 \<le> length (s_activeSounds (Lock s))" using lw by simp
  from update_loop [OF this] have l:
    "\<And>v. s_activeSounds ?U ! v =
            (if v < 32 then updateWord (src_state (al s (s_sources s ! v))) (s_activeSounds s ! v)
             else s_activeSounds s ! v)"
    "s_sources ?U = s_sources s" "s_callback ?U = s_callback s" "s_bufferMap ?U = s_bufferMap s"
    "s_mutex ?U = Suc (s_mutex s)" "s_init ?U = s_init s"
    by simp_all
  let ?P = "\<lambda>st. s_buffers st = s_buffers s \<and> \<not> s_callback st
      \<and> length (s_activeSounds st) = 32"
  have "?P ?U"
  proof (rule fold_inv [where P = ?P])
    show "?P (Lock s)" using c lw by simp
  next
    fix x and st :: sound_state
    assume x: "x \<in> set [0..<32]" and p: "?P st"
    then have xl: "x < length (s_activeSounds st)" by simp
    show "?P (updateSound st x)"
      using p by (simp add: updateSound_fields [OF xl])
  qed
  then show "s_buffers (update s) = s_buffers s" by (simp add: u)
  show "s_activeSounds (update s) ! v =
            updateWord (src_state (al s (s_sources s ! v))) (s_activeSounds s ! v)"
    if "v < 32" for v using that by (simp add: u l(1))
  show "s_bufferMap (update s) = s_bufferMap s" "s_mutex (update s) = s_mutex s"
    "s_init (update s)" "\<not> s_callback (update s)" "s_sources (update s) = s_sources s"
    using i c by (simp_all add: u l)
qed

lemma sourceFinished_fields:
  "s_buffers (sourceFinished s n) = s_buffers s" "s_activeSounds (sourceFinished s n) = s_activeSounds s"
  "s_bufferMap (sourceFinished s n) = s_bufferMap s" "s_mutex (sourceFinished s n) = s_mutex s"
  "s_init (sourceFinished s n) = s_init s" "s_callback (sourceFinished s n) = s_callback s"
  "s_sources (sourceFinished s n) = s_sources s"
  by (simp_all add: sourceFinished_def)

lemma updateWord_idle: "\<not> busy w \<Longrightarrow> \<not> busy (updateWord st w)"
  by (simp add: updateWord_def busy_def)

lemma updateWord_stopped: "\<not> bit w 30 \<Longrightarrow> \<not> busy (updateWord AL_STOPPED w)"
  by (simp add: updateWord_def busy_def flag_bits)

lemma leaked_init: "leaked 0 st0"
  unfolding leaked_def
  by (simp add: st0_fields soundInv_st0 busy_def init_buffer)

lemma leaked_round:
  assumes p: "leaked k s" and k: "k < 256"
  shows "leaked (Suc k)
    (update (sourceFinished (snd (playSound2D 0xffffffff s (soundName k) False info0 False)) 1))"
proof -
  let ?nm = "soundName k"
  let ?r = "playSound2D 0xffffffff s ?nm False info0 False"
  let ?p = "snd ?r"
  let ?f = "sourceFinished ?p 1"
  from p have i: "s_init s" and inv: "soundInv s" and mu: "s_mutex s = 0"
    and cb: "\<not> s_callback s" and src: "s_sources s = genSources0"
    and idle: "\<And>v. v < 32 \<Longrightarrow> \<not> busy (s_activeSounds s ! v)"
    and used: "\<And>b. b < k \<Longrightarrow> flags (s_buffers s ! b) AND BUFFER_ACTIVE \<noteq> 0
                 \<and> 1 \<le> refCount (s_buffers s ! b)"
    and free: "\<And>b. k \<le> b \<Longrightarrow> b < 256 \<Longrightarrow> flags (s_buffers s ! b) AND BUFFER_ACTIVE = 0"
    and mp: "\<And>j. k \<le> j \<Longrightarrow> s_bufferMap s (soundName j) = None"
    by (simp_all add: leaked_def)
  have lw: "length (s_activeSounds s) = 32" and lb: "length (s_buffers s) = 256"
    using inv by (simp_all add: soundInv_lens)
  let ?s2 = "(Lock s)\<lparr>s_buffers := (s_buffers (Lock s))[k := (s_buffers (Lock s) ! k)\<lparr>name := ?nm\<rparr>],
                s_bufferMap := (s_bufferMap (Lock s))(?nm \<mapsto> of_nat k)\<rparr>"
  have ff: "findFreeBuffer (s_buffers s) 0 = Some k"
    using k lb free [of k] used by (intro findFreeBuffer_first) simp_all
  have g: "getSoundBuffer (Lock s) ?nm = (Some k, ?s2)"
    by (rule getSoundBuffer_free) (simp_all add: mp ff)
  have ix0: "index (s_buffers s ! k) = of_nat k"
    using inv k by (simp add: soundInv_def)
  have ix: "index (s_buffers ?s2 ! k) = of_nat k"
    using k lb by (simp add: ix0)
  have f: "findFreeSound (s_activeSounds ?s2) 0 = Some 0"
    using lw idle [of 0] by (intro findFreeSound_first) simp_all
  have ok: "\<not> (flags (s_buffers ?s2 ! k) AND BUFFER_ACTIVE = 0 \<and> False)" by simp
  have v0: "(0 :: nat) < 32" by simp
  note q = playSound2D_voice [OF i g ix k f v0 ok, of "0xffffffff" info0 False]
  have lb2: "length (s_buffers ?s2) = 256" using lb by simp
  note m = markLoaded_buffer [where s = ?s2 and b = k]
  have rc0: "0 \<le> refCount (s_buffers s ! k)"
    using soundInv_counts [OF inv k] busyCount_nonneg [of "s_activeSounds s" k] by linarith
  have inv_p: "soundInv ?p" by (rule soundInv_playSound2D [OF inv])
  have inv_f: "soundInv ?f" by (rule soundInv_sourceFinished [OF inv_p])
  have inv_u: "soundInv (update ?f)" by (rule soundInv_update [OF inv_f])
  have i_f: "s_init ?f" by (simp add: sourceFinished_fields q i)
  have cb_f: "\<not> s_callback ?f" by (simp add: sourceFinished_fields q cb)
  have lw_f: "length (s_activeSounds ?f) = 32" using inv_f by (simp add: soundInv_lens)
  note u = update_no_callback [OF i_f cb_f lw_f]
  have bs_u: "s_buffers (update ?f) = s_buffers ?p" by (simp add: u(1) sourceFinished_fields)
  have ws_f: "s_activeSounds ?f = (s_activeSounds s)[0 := playWord (allocWord (s_activeSounds s ! 0) (of_nat k)) False]"
    by (simp add: sourceFinished_fields q(2))
  have src_f: "s_sources ?f = genSources0" by (simp add: sourceFinished_fields q src)
  have g0: "genSources0 ! 0 = 1" by (simp add: genSources0_nth)
  have al0: "src_state (al ?f 1) = AL_STOPPED"
    by (simp add: sourceFinished_def q(4) src g0 playSource_def al_finish_def)
  have fl: "(flags (s_buffers ?p ! b) AND BUFFER_ACTIVE \<noteq> 0)
            = (b = k \<or> flags (s_buffers s ! b) AND BUFFER_ACTIVE \<noteq> 0)" if "b < 256" for b
    using that m [of b] lb k by (auto simp: q(3) nth_list_update_cases markLoaded_fields)
  have rc: "refCount (s_buffers ?p ! b)
            = (if b = k then refCount (s_buffers s ! k) + 1 else refCount (s_buffers s ! b))"
    if "b < 256" for b
    using that m [of b] lb k by (auto simp: q(3) nth_list_update_cases markLoaded_fields)
  show ?thesis
    unfolding leaked_def
  proof (intro conjI allI impI)
    show "s_init (update ?f)" by (rule u)
    show "soundInv (update ?f)" by (rule inv_u)
    show "s_mutex (update ?f) = 0" by (simp add: u(4) sourceFinished_fields q mu)
    show "\<not> s_callback (update ?f)" by (rule u)
    show "s_sources (update ?f) = genSources0" by (simp add: u(7) src_f)
  next
    fix v :: nat assume v: "v < 32"
    show "\<not> busy (s_activeSounds (update ?f) ! v)"
    proof (cases "v = 0")
      case True
      have "\<not> bit (s_activeSounds s ! 0) 30" using idle [of 0] by (simp add: busy_def)
      then have "\<not> bit (s_activeSounds ?f ! 0) 30"
        using lw by (simp add: ws_f playWord_fields allocWord_fields)
      then show ?thesis
        unfolding True u(2) [OF v0] src_f g0 al0 by (rule updateWord_stopped)
    next
      case False
      then have "\<not> busy (s_activeSounds ?f ! v)"
        using idle [OF v] by (simp add: ws_f)
      then show ?thesis
        unfolding u(2) [OF v] by (rule updateWord_idle)
    qed
  next
    fix b assume b: "b < Suc k"
    then have b256: "b < 256" using k by simp
    show "flags (s_buffers (update ?f) ! b) AND BUFFER_ACTIVE \<noteq> 0"
      unfolding bs_u fl [OF b256] using b used [of b] by (cases "b = k") simp_all
    show "1 \<le> refCount (s_buffers (update ?f) ! b)"
      unfolding bs_u rc [OF b256] using b used [of b] rc0 by (cases "b = k") simp_all
  next
    fix b assume b: "Suc k \<le> b \<and> b < 256"
    then have b256: "b < 256" by simp
    have "\<not> (flags (s_buffers (update ?f) ! b) AND BUFFER_ACTIVE \<noteq> 0)"
      unfolding bs_u fl [OF b256] using b free [of b] by simp
    then show "flags (s_buffers (update ?f) ! b) AND BUFFER_ACTIVE = 0" by simp
  next
    fix j assume j: "Suc k \<le> j"
    then show "s_bufferMap (update ?f) (soundName j) = None"
      using mp [of j] by (simp add: u(3) sourceFinished_fields q(6) soundName_inj)
  qed
qed

lemma leaked_run:
  "k \<le> 256 \<Longrightarrow> leaked k (run 0xffffffff st0 (leakCalls k))"
proof (induction k)
  case 0
  then show ?case by (simp add: run_def leaked_init)
next
  case (Suc k)
  then have "leaked k (run 0xffffffff st0 (leakCalls k))" and k: "k < 256" by simp_all
  from leaked_round [OF this] show ?case
    by (simp add: run_append) (simp add: run_def)
qed

lemma leaked_all: "leaked 256 leakState"
  unfolding leakState_def by (rule leaked_run) simp

lemma starved_buffers:
  assumes p: "leaked 256 s"
  shows "playSound2D ivh s (soundName 256) e info lp = (ivh, Lock s)"
proof -
  from p have i: "s_init s" and inv: "soundInv s"
    and used: "\<And>b. b < 256 \<Longrightarrow> flags (s_buffers s ! b) AND BUFFER_ACTIVE \<noteq> 0
                 \<and> 1 \<le> refCount (s_buffers s ! b)"
    and mp: "s_bufferMap s (soundName 256) = None"
    by (simp_all add: leaked_def)
  have lb: "length (s_buffers s) = 256" using inv by (simp add: soundInv_lens)
  have ff: "findFreeBuffer (s_buffers s) 0 = None"
    unfolding findFreeBuffer_None using used lb by (auto simp: in_set_conv_nth)
  have fo: "snd (findOldestBuffer (s_buffers s) 0 0xffffffffffffffff (- 1)) = - 1"
  proof (rule findOldestBuffer_none, intro allI impI)
    fix j assume "j < length (s_buffers s)" "refCount (s_buffers s ! j) = 0"
    then have False using used [of j] lb by simp
    then show "lastUsed (s_buffers s ! j) = 0xffffffffffffffff" ..
  qed
  have g: "getSoundBuffer (Lock s) (soundName 256) = (None, Lock s)"
    by (rule getSoundBuffer_full) (simp_all add: mp ff fo)
  show ?thesis by (rule playSound2D_null [OF i g])
qed

text \<open>Claim C1, on the code. playSound2D locks the mutex, and when getSoundBuffer returns
  NULL it returns INVALID_SOUND_HANDLE without unlocking. After the 256 rounds of
  \<open>leakCalls\<close> from the initial state every buffer is active with a refCount above zero
  and the lock is free; the next play of a new name finds no buffer, returns the invalid
  handle, and the lock is still held once after the call has returned.\<close>

theorem lock_left_held:
  "s_mutex (run 0xffffffff st0 (leakCalls 256)) = 0
   \<and> fst (playSound2D 0xffffffff (run 0xffffffff st0 (leakCalls 256))
            (soundName 256) False info0 False) = 0xffffffff
   \<and> s_mutex (run 0xffffffff st0
        (leakCalls 256 @ [PlaySound2D (soundName 256) False info0 False])) = 1"
proof -
  have l: "leaked 256 (run 0xffffffff st0 (leakCalls 256))"
    using leaked_all by (simp add: leakState_def)
  then have m: "s_mutex (run 0xffffffff st0 (leakCalls 256)) = 0" by (simp add: leaked_def)
  note e = starved_buffers [OF l, of "0xffffffff" False info0 False]
  have r: "run 0xffffffff st0 (leakCalls 256 @ [PlaySound2D (soundName 256) False info0 False])
      = snd (playSound2D 0xffffffff (run 0xffffffff st0 (leakCalls 256))
               (soundName 256) False info0 False)"
    unfolding run_append by (simp add: run_def)
  show ?thesis
    unfolding r e using m by simp
qed

end
